theory Spec2Isabelle
  imports Complex_Main
begin

section \<open>Array primitives used by the correlation notebook\<close>

text \<open>
  The notebook \<^verbatim>\<open>11-Statistics.ipynb\<close> computes, for the regions of interest of one
  imaging session, their centroids, the matrix of pairwise distances and the
  strictly upper triangle of that matrix as a vector.  Its own code is a few loops
  around NumPy calls.  Arrays are lists (a matrix is a list of rows), indices are
  natural numbers, and an indexing error is a value.
\<close>

datatype error = IndexError

text \<open>
  \<^verbatim>\<open>A[mask]\<close> for a boolean \<^verbatim>\<open>mask\<close> of the shape of \<^verbatim>\<open>A\<close>: the entries of \<^verbatim>\<open>A\<close> at the
  true positions of the mask, in row-major (C) order.
\<close>

definition np_bool_index :: "'a list list \<Rightarrow> bool list list \<Rightarrow> 'a list" where
  "np_bool_index A msk =
     concat (map (\<lambda>i. map (\<lambda>j. A ! i ! j) (filter (\<lambda>j. msk ! i ! j) [0..<length (msk ! i)]))
                 [0..<length msk])"

text \<open>
  \<^verbatim>\<open>np.indices(shape)\<close> broadcast to the shape: the grid of row numbers and the grid of
  column numbers of an \<open>n\<close> by \<open>m\<close> array.
\<close>

definition row_grid :: "nat \<Rightarrow> nat \<Rightarrow> nat list list" where
  "row_grid n m = map (\<lambda>i. replicate m i) [0..<n]"

definition col_grid :: "nat \<Rightarrow> nat \<Rightarrow> nat list list" where
  "col_grid n m = replicate n [0..<m]"

text \<open>
  \<^verbatim>\<open>np.where(mask)\<close> with one argument is \<^verbatim>\<open>mask.nonzero()\<close>: the array of row indices and
  the array of column indices of the true entries, in row-major order.
\<close>

definition np_where :: "bool list list \<Rightarrow> nat list \<times> nat list" where
  "np_where msk =
     (np_bool_index (map (\<lambda>i. replicate (length (msk ! i)) i) [0..<length msk]) msk,
      np_bool_index (map (\<lambda>i. [0..<length (msk ! i)]) [0..<length msk]) msk)"

text \<open>
  \<^verbatim>\<open>np.tri(N, M, k, dtype=bool)\<close> is \<^verbatim>\<open>greater_equal.outer(arange(N), arange(-k, M-k))\<close>:
  entry \<open>(i, j)\<close> is true when \<open>i \<ge> j - k\<close>.
\<close>

definition tri :: "nat \<Rightarrow> nat \<Rightarrow> int \<Rightarrow> bool list list" where
  "tri N M k = map (\<lambda>i. map (\<lambda>j. int j - k \<le> int i) [0..<M]) [0..<N]"

text \<open>
  \<^verbatim>\<open>np.triu_indices(n, k)\<close>: NumPy negates \<^verbatim>\<open>tri(n, n, k - 1)\<close> (its \<^verbatim>\<open>tri_\<close>, here
  \<open>ntri\<close>) and selects the row grid and the column grid with that mask.
\<close>

definition triu_indices :: "nat \<Rightarrow> int \<Rightarrow> nat list \<times> nat list" where
  "triu_indices n k =
     (let ntri = map (map Not) (tri n n (k - 1))
      in (np_bool_index (row_grid n n) ntri, np_bool_index (col_grid n n) ntri))"

text \<open>
  \<^verbatim>\<open>A[rs, cs]\<close> for two index arrays: the entries \<^verbatim>\<open>A[rs[k], cs[k]]\<close>.  An index outside
  the array raises \<^verbatim>\<open>IndexError\<close>, and so do index arrays of different lengths (the
  broadcasting of an index array of length one is not needed here and not modelled).
\<close>

definition np_index2 :: "'a list list \<Rightarrow> nat list \<Rightarrow> nat list \<Rightarrow> error + 'a list" where
  "np_index2 A rs cs =
     (if length rs = length cs \<and> list_all (\<lambda>(r, c). r < length A \<and> c < length (A ! r)) (zip rs cs)
      then Inr (map (\<lambda>(r, c). A ! r ! c) (zip rs cs))
      else Inl IndexError)"

section \<open>Step 8: the upper triangle as a vector\<close>

text \<open>
  \<^verbatim>\<open>inds = np.triu_indices(num_cells, k=1)\<close>,
  \<^verbatim>\<open>distance_vector = distance[inds[0], inds[1]]\<close>, and the same indexing of the signal
  correlation matrix, \<^verbatim>\<open>sc[inds[0], inds[1]]\<close>.
\<close>

definition inds :: "nat \<Rightarrow> nat list \<times> nat list" where
  "inds num_cells = triu_indices num_cells 1"

definition distance_vector :: "nat \<Rightarrow> 'a list list \<Rightarrow> error + 'a list" where
  "distance_vector num_cells distance =
     np_index2 distance (fst (inds num_cells)) (snd (inds num_cells))"

definition sc_vector :: "nat \<Rightarrow> 'a list list \<Rightarrow> error + 'a list" where
  "sc_vector num_cells sc = np_index2 sc (fst (inds num_cells)) (snd (inds num_cells))"

text \<open>The positions of the strict upper triangle, row by row.\<close>

definition upper_pairs :: "nat \<Rightarrow> (nat \<times> nat) list" where
  "upper_pairs n = concat (map (\<lambda>i. map (\<lambda>j. (i, j)) [Suc i..<n]) [0..<n])"

definition square :: "nat \<Rightarrow> 'a list list \<Rightarrow> bool" where
  "square n A \<longleftrightarrow> length A = n \<and> list_all (\<lambda>row. length row = n) A"

text \<open>Row-major order on positions: an earlier row, or the same row and an earlier column.\<close>

fun row_major_less :: "nat \<times> nat \<Rightarrow> nat \<times> nat \<Rightarrow> bool" where
  "row_major_less (a, b) (c, d) \<longleftrightarrow> a < c \<or> (a = c \<and> b < d)"

text \<open>
  The two matrices of the alignment test: entry \<open>(i, j)\<close> is \<open>off + i * n + j\<close>.
\<close>

definition index_matrix :: "nat \<Rightarrow> int \<Rightarrow> int list list" where
  "index_matrix n off = map (\<lambda>i. map (\<lambda>j. off + int (i * n + j)) [0..<n]) [0..<n]"

section \<open>Double-precision arithmetic\<close>

text \<open>
  NumPy's \<^verbatim>\<open>float64\<close> is IEEE 754 binary64: addition, subtraction, division and the
  square root return the exact result rounded to the nearest number with a 53-bit
  significand, ties going to the even significand.  \<open>fl\<close> is that rounding on the
  reals, with an unbounded exponent.  It agrees with \<^verbatim>\<open>float64\<close> wherever the exact
  result is zero or has a magnitude between \<open>2\<^sup>-\<^sup>1\<^sup>0\<^sup>2\<^sup>2\<close> and \<open>2\<^sup>1\<^sup>0\<^sup>2\<^sup>3\<close>; outside that range
  \<^verbatim>\<open>float64\<close> overflows to an infinity or underflows, and \<open>fl\<close> does not.  Centroids
  computed from masks are means of pixel indices and stay far inside the range; the
  statements about arbitrary centroid arrays carry a hypothesis (\<open>well_spaced\<close> below)
  that keeps every intermediate value inside it.  The infinities and the sign of zero
  are not modelled; \<open>NaN\<close> is, since the mean of an empty index array is \<open>0.0 / 0\<close>.
\<close>

definition round_even :: "real \<Rightarrow> int" where
  "round_even y =
     (let f = \<lfloor>y\<rfloor>; d = y - of_int f
      in if d < 1 / 2 then f else if 1 / 2 < d then f + 1 else if even f then f else f + 1)"

definition fl_pos :: "real \<Rightarrow> real" where
  "fl_pos x =
     (let e = \<lfloor>log 2 x\<rfloor> - 52
      in of_int (round_even (x / 2 powr of_int e)) * 2 powr of_int e)"

definition fl :: "real \<Rightarrow> real" where
  "fl x = (if x = 0 then 0 else sgn x * fl_pos \<bar>x\<bar>)"

datatype float64 = Fin real | NaN

fun np_add :: "float64 \<Rightarrow> float64 \<Rightarrow> float64" where
  "np_add (Fin a) (Fin b) = Fin (fl (a + b))"
| "np_add _ _ = NaN"

fun np_sub :: "float64 \<Rightarrow> float64 \<Rightarrow> float64" where
  "np_sub (Fin a) (Fin b) = Fin (fl (a - b))"
| "np_sub _ _ = NaN"

text \<open>
  \<^verbatim>\<open>x**2\<close> as the correctly rounded square.  NumPy evaluates the power of a \<^verbatim>\<open>float64\<close>
  scalar with the C library's \<^verbatim>\<open>pow(x, 2.0)\<close>, which returns the exact square of a small
  integer (as in the 3-4-5 triangle) and is symmetric in the sign of \<open>x\<close>, but may in
  general be one unit in the last place away from the correctly rounded square.
  \<open>np_power2\<close> below takes the library function as a parameter; the statements that
  depend on the accuracy of the square are made about \<open>distance_pw\<close>.
\<close>

fun np_pow2 :: "float64 \<Rightarrow> float64" where
  "np_pow2 (Fin a) = Fin (fl (a * a))"
| "np_pow2 NaN = NaN"

fun np_sqrt :: "float64 \<Rightarrow> float64" where
  "np_sqrt (Fin a) = (if a < 0 then NaN else Fin (fl (sqrt a)))"
| "np_sqrt NaN = NaN"

text \<open>
  \<^verbatim>\<open>np.mean\<close> of an array of indices: the sum, accumulated in \<^verbatim>\<open>float64\<close>, divided by the
  number of elements.  The sum is taken to be exact, as it is for every sum of indices
  below \<open>2 ^ 53\<close> (a field of view of 512 by 512 pixels gives sums below \<open>2 ^ 27\<close>), so
  only the division rounds.  For the empty array the quotient is \<open>0.0 / 0\<close>, which is
  \<open>NaN\<close>; NumPy prints a warning and raises nothing.
\<close>

definition np_mean :: "nat list \<Rightarrow> float64" where
  "np_mean xs = (if xs = [] then NaN else Fin (fl (real (sum_list xs) / real (length xs))))"

definition np_zeros :: "nat \<Rightarrow> float64 list" where
  "np_zeros n = replicate n (Fin 0)"

definition np_zeros2 :: "nat \<Rightarrow> nat \<Rightarrow> float64 list list" where
  "np_zeros2 n m = replicate n (replicate m (Fin 0))"

section \<open>Step 6: centroids and distances\<close>

text \<open>
  \<^verbatim>\<open>rois\<close> is the array of masks, one boolean grid per cell.  The first loop:
  \<^verbatim>\<open>
  num_cells = rois.shape[0]
  loc_x = np.zeros((num_cells))
  loc_y = np.zeros((num_cells))
  for i in range(num_cells):
      ind = np.where(rois[i])
      loc_x[i] = np.mean(ind[1])
      loc_y[i] = np.mean(ind[0])
  \<close>
  The state of the loop is the pair of arrays \<open>(loc_x, loc_y)\<close>.
\<close>

definition loc_step :: "bool list list list \<Rightarrow> nat \<Rightarrow> float64 list \<times> float64 list
    \<Rightarrow> float64 list \<times> float64 list" where
  "loc_step rois i = (\<lambda>(loc_x, loc_y).
     let ind = np_where (rois ! i)
     in (loc_x[i := np_mean (snd ind)], loc_y[i := np_mean (fst ind)]))"

definition loc :: "bool list list list \<Rightarrow> float64 list \<times> float64 list" where
  "loc rois =
     (let num_cells = length rois
      in fold (loc_step rois) [0..<num_cells] (np_zeros num_cells, np_zeros num_cells))"

definition loc_x :: "bool list list list \<Rightarrow> float64 list" where
  "loc_x rois = fst (loc rois)"

definition loc_y :: "bool list list list \<Rightarrow> float64 list" where
  "loc_y rois = snd (loc rois)"

text \<open>
  The second loop:
  \<^verbatim>\<open>
  distance = np.zeros((num_cells, num_cells))
  for i in range(num_cells):
      for j in range(num_cells):
          distance[i, j] = np.sqrt( (loc_x[i]-loc_x[j])**2 + (loc_y[i]-loc_y[j])**2 )
  \<close>
\<close>

definition distance_row :: "nat \<Rightarrow> float64 list \<Rightarrow> float64 list \<Rightarrow> nat
    \<Rightarrow> float64 list list \<Rightarrow> float64 list list" where
  "distance_row num_cells lx ly i =
     fold (\<lambda>j d. d[i := (d ! i)[j :=
             np_sqrt (np_add (np_pow2 (np_sub (lx ! i) (lx ! j)))
                             (np_pow2 (np_sub (ly ! i) (ly ! j))))]])
          [0..<num_cells]"

definition distance :: "nat \<Rightarrow> float64 list \<Rightarrow> float64 list \<Rightarrow> float64 list list" where
  "distance num_cells lx ly =
     fold (distance_row num_cells lx ly) [0..<num_cells] (np_zeros2 num_cells num_cells)"

text \<open>The whole of step 6, from the masks to the distance matrix.\<close>

definition distance_of_rois :: "bool list list list \<Rightarrow> float64 list list" where
  "distance_of_rois rois = distance (length rois) (loc_x rois) (loc_y rois)"

text \<open>The positions of the true entries of a mask, as a set and listed row by row.\<close>

definition true_set :: "bool list list \<Rightarrow> (nat \<times> nat) set" where
  "true_set m = {(r, c). r < length m \<and> c < length (m ! r) \<and> m ! r ! c}"

definition true_positions :: "bool list list \<Rightarrow> (nat \<times> nat) list" where
  "true_positions m =
     concat (map (\<lambda>r. map (\<lambda>c. (r, c)) (filter (\<lambda>c. m ! r ! c) [0..<length (m ! r)]))
                 [0..<length m])"

text \<open>
  The second loop with the square left to the C library: \<open>pw\<close> stands for
  \<^verbatim>\<open>pow(x, 2.0)\<close>.  \<open>distance\<close> above is \<open>distance_pw\<close> for the correctly rounded square.
\<close>

fun np_power2 :: "(real \<Rightarrow> real) \<Rightarrow> float64 \<Rightarrow> float64" where
  "np_power2 pw (Fin a) = Fin (pw a)"
| "np_power2 pw NaN = NaN"

definition distance_row_pw :: "(real \<Rightarrow> real) \<Rightarrow> nat \<Rightarrow> float64 list \<Rightarrow> float64 list \<Rightarrow> nat
    \<Rightarrow> float64 list list \<Rightarrow> float64 list list" where
  "distance_row_pw pw num_cells lx ly i =
     fold (\<lambda>j d. d[i := (d ! i)[j :=
             np_sqrt (np_add (np_power2 pw (np_sub (lx ! i) (lx ! j)))
                             (np_power2 pw (np_sub (ly ! i) (ly ! j))))]])
          [0..<num_cells]"

definition distance_pw :: "(real \<Rightarrow> real) \<Rightarrow> nat \<Rightarrow> float64 list \<Rightarrow> float64 list
    \<Rightarrow> float64 list list" where
  "distance_pw pw num_cells lx ly =
     fold (distance_row_pw pw num_cells lx ly) [0..<num_cells] (np_zeros2 num_cells num_cells)"

text \<open>
  What is assumed of the library's \<^verbatim>\<open>pow(x, 2.0)\<close>: the square of zero is zero, the
  result does not depend on the sign of \<open>x\<close>, and for \<open>x\<close> of a magnitude between
  \<open>2\<^sup>-\<^sup>5\<^sup>0\<^sup>1\<close> and \<open>2\<^sup>5\<^sup>0\<^sup>1\<close> (where the square neither overflows nor underflows) the
  result is within two units in the last place of the square, that is, within a
  relative error of \<open>2\<^sup>-\<^sup>5\<^sup>1\<close>.
\<close>

definition libm_pow2 :: "(real \<Rightarrow> real) \<Rightarrow> bool" where
  "libm_pow2 pw \<longleftrightarrow>
     pw 0 = 0 \<and> (\<forall>x. pw (- x) = pw x) \<and>
     (\<forall>x. 1 / 2 ^ 501 \<le> \<bar>x\<bar> \<and> \<bar>x\<bar> \<le> 2 ^ 501 \<longrightarrow> \<bar>pw x - x * x\<bar> \<le> x * x / 2 ^ 51)"

text \<open>
  The range of centroid arrays on which \<open>fl\<close> is \<^verbatim>\<open>float64\<close>: all coordinates are
  numbers, and any two coordinates of one array are equal or differ by at least
  \<open>2\<^sup>-\<^sup>5\<^sup>0\<^sup>0\<close> and at most \<open>2\<^sup>5\<^sup>0\<^sup>0\<close>.  Then no difference, square, sum of squares or square
  root in the loop overflows or underflows.
\<close>

fun diff_in_range :: "float64 \<Rightarrow> float64 \<Rightarrow> bool" where
  "diff_in_range (Fin a) (Fin b) \<longleftrightarrow> a = b \<or> (1 / 2 ^ 500 \<le> \<bar>a - b\<bar> \<and> \<bar>a - b\<bar> \<le> 2 ^ 500)"
| "diff_in_range _ _ \<longleftrightarrow> False"

definition well_spaced :: "float64 list \<Rightarrow> bool" where
  "well_spaced xs \<longleftrightarrow> list_all (\<lambda>a. list_all (diff_in_range a) xs) xs"

text \<open>An \<open>h\<close> by \<open>w\<close> mask whose only true pixel is \<open>(r, c)\<close>.\<close>

definition single_pixel :: "nat \<Rightarrow> nat \<Rightarrow> nat \<Rightarrow> nat \<Rightarrow> bool list list" where
  "single_pixel h w r c = map (\<lambda>i. map (\<lambda>j. i = r \<and> j = c) [0..<w]) [0..<h]"

section \<open>Properties of the flattener\<close>

lemma filter_gt: "filter (\<lambda>j. i < j) [0..<n] = [Suc i..<n]"
  by (induction n) auto

lemma ntri_row: "i < n \<Longrightarrow> map (map Not) (tri n n 0) ! i = map (\<lambda>j. i < j) [0..<n]"
  by (auto simp: tri_def)

lemma ntri_filter:
  assumes "i < n"
  shows "filter (\<lambda>j. map (map Not) (tri n n 0) ! i ! j) [0..<length (map (map Not) (tri n n 0) ! i)]
         = [Suc i..<n]"
proof -
  have "filter (\<lambda>j. map (\<lambda>j. i < j) [0..<n] ! j) [0..<n] = filter (\<lambda>j. i < j) [0..<n]"
    by (rule filter_cong) auto
  with assms show ?thesis
    by (simp add: ntri_row filter_gt)
qed

lemma bool_index_ntri:
  "np_bool_index A (map (map Not) (tri n n 0)) =
     concat (map (\<lambda>i. map (\<lambda>j. A ! i ! j) [Suc i..<n]) [0..<n])"
proof -
  have len: "length (map (map Not) (tri n n 0)) = n"
    by (simp add: tri_def)
  have "map (\<lambda>i. map (\<lambda>j. A ! i ! j)
              (filter (\<lambda>j. map (map Not) (tri n n 0) ! i ! j)
                 [0..<length (map (map Not) (tri n n 0) ! i)])) [0..<n]
        = map (\<lambda>i. map (\<lambda>j. A ! i ! j) [Suc i..<n]) [0..<n]"
    by (rule map_cong) (auto simp: ntri_filter)
  then show ?thesis
    by (simp only: np_bool_index_def len)
qed

lemma triu_indices_1: "triu_indices n 1 = (map fst (upper_pairs n), map snd (upper_pairs n))"
proof -
  have r: "concat (map (\<lambda>i. map (\<lambda>j. row_grid n n ! i ! j) [Suc i..<n]) [0..<n])
           = map fst (upper_pairs n)"
    unfolding upper_pairs_def map_concat
    by (rule arg_cong [where f = concat]) (auto simp: row_grid_def)
  have c: "concat (map (\<lambda>i. map (\<lambda>j. col_grid n n ! i ! j) [Suc i..<n]) [0..<n])
           = map snd (upper_pairs n)"
    unfolding upper_pairs_def map_concat
    by (rule arg_cong [where f = concat]) (auto simp: col_grid_def)
  show ?thesis
    by (simp add: triu_indices_def bool_index_ntri r c)
qed

lemma zip_inds: "zip (fst (inds n)) (snd (inds n)) = upper_pairs n"
  by (simp add: inds_def triu_indices_1 zip_map_fst_snd)

lemma length_upper_pairs: "length (upper_pairs n) = n * (n - 1) div 2"
proof -
  have "length (upper_pairs n) = sum_list (map (\<lambda>i. n - Suc i) [0..<n])"
    by (simp add: upper_pairs_def length_concat comp_def)
  also have "\<dots> = (\<Sum>i<n. n - Suc i)"
    by (simp add: interv_sum_list_conv_sum_set_nat atLeast0LessThan)
  also have "\<dots> = (\<Sum>i<n. i)"
    by (rule sum.nat_diff_reindex)
  also have "\<dots> = n * (n - 1) div 2"
    by (metis Sum_Ico_nat atLeast0LessThan diff_zero mult_eq_0_iff)
  finally show ?thesis .
qed

lemma set_upper_pairs: "set (upper_pairs n) = {(i, j). i < j \<and> j < n}"
  by (force simp: upper_pairs_def)

lemma sorted_grid:
  assumes "sorted_wrt (<) rs" and "\<And>r. sorted_wrt (<) (cs r)"
  shows "sorted_wrt row_major_less (concat (map (\<lambda>r. map (\<lambda>c. (r, c)) (cs r)) rs))"
  using assms(1)
proof (induction rs)
  case Nil
  then show ?case by simp
next
  case (Cons r rs)
  have "sorted_wrt row_major_less (map (\<lambda>c. (r, c)) (cs r))"
    using assms(2) [of r] by (simp add: sorted_wrt_map)
  with Cons show ?case
    by (auto simp: sorted_wrt_append)
qed

lemma row_major_distinct:
  assumes "sorted_wrt row_major_less ps"
  shows "distinct ps"
proof -
  have "\<And>i j. i < j \<Longrightarrow> j < length ps \<Longrightarrow> ps ! i \<noteq> ps ! j"
  proof
    fix i j
    assume ij: "i < j" "j < length ps" and eq: "ps ! i = ps ! j"
    from ij have "row_major_less (ps ! i) (ps ! j)"
      using assms by (simp add: sorted_wrt_iff_nth_less)
    with eq show False by (cases "ps ! j") simp
  qed
  then show ?thesis
    by (metis distinct_conv_nth nat_neq_iff)
qed

lemma sorted_upper_pairs: "sorted_wrt row_major_less (upper_pairs n)"
  unfolding upper_pairs_def by (rule sorted_grid) simp_all

lemma distinct_upper_pairs: "distinct (upper_pairs n)"
  by (rule row_major_distinct) (rule sorted_upper_pairs)

lemma index2_square:
  assumes "square n A"
  shows "np_index2 A (fst (inds n)) (snd (inds n)) = Inr (map (\<lambda>(i, j). A ! i ! j) (upper_pairs n))"
proof -
  have len: "length (fst (inds n)) = length (snd (inds n))"
    by (simp add: inds_def triu_indices_1)
  have "\<And>r c. (r, c) \<in> set (upper_pairs n) \<Longrightarrow> r < length A \<and> c < length (A ! r)"
    using assms by (auto simp: set_upper_pairs square_def list_all_length)
  then have "list_all (\<lambda>(r, c). r < length A \<and> c < length (A ! r)) (upper_pairs n)"
    by (auto simp: list_all_iff)
  with len show ?thesis
    by (simp add: np_index2_def zip_inds)
qed

lemma square_index_matrix: "square n (index_matrix n off)"
  by (simp add: square_def index_matrix_def list_all_iff)

lemma index_matrix_nth: "i < n \<Longrightarrow> j < n \<Longrightarrow> index_matrix n off ! i ! j = off + int (i * n + j)"
  by (simp add: index_matrix_def)

lemma upper_pairs_nth:
  assumes "k < length (upper_pairs n)"
  shows "fst (upper_pairs n ! k) < snd (upper_pairs n ! k) \<and> snd (upper_pairs n ! k) < n"
proof -
  from assms have "upper_pairs n ! k \<in> set (upper_pairs n)"
    by (rule nth_mem)
  then show ?thesis
    by (auto simp: set_upper_pairs)
qed

text \<open>
  Claim C6.  For every square \<open>n\<close> by \<open>n\<close> matrix, step 8 of the notebook returns the
  entries at the positions \<open>upper_pairs n\<close>, in that order.  There are \<open>n (n - 1) / 2\<close>
  of these positions; they are exactly the positions whose column index is strictly
  greater than the row index (so no position of the diagonal is among them); they
  are listed in row-major order; and none is listed twice.  The bound \<open>n \<ge> 2\<close> of the
  claim is not needed: for \<open>n\<close> below two the vector is empty.
\<close>

theorem flattener_upper_triangle:
  assumes "square n A"
  shows "distance_vector n A = Inr (map (\<lambda>(i, j). A ! i ! j) (upper_pairs n))
       \<and> length (upper_pairs n) = n * (n - 1) div 2
       \<and> set (upper_pairs n) = {(i, j). i < j \<and> j < n}
       \<and> sorted_wrt row_major_less (upper_pairs n)
       \<and> distinct (upper_pairs n)"
  using index2_square [OF assms]
  by (simp add: distance_vector_def length_upper_pairs set_upper_pairs sorted_upper_pairs
      distinct_upper_pairs)

text \<open>The flattener on the three by three matrix of the 3-4-5 triangle.\<close>

theorem flattener_upper_triangle_witness:
  "square 3 [[0, 3, 4], [3, 0, 5], [4, 5, 0 :: int]]
   \<and> distance_vector 3 [[0, 3, 4], [3, 0, 5], [4, 5, 0 :: int]] = Inr [3, 4, 5]
   \<and> length (upper_pairs 3) = 3
   \<and> set (upper_pairs 3) = {(0, 1), (0, 2), (1, 2)}"
proof -
  have sq: "square 3 [[0, 3, 4], [3, 0, 5], [4, 5, 0 :: int]]"
    by (simp add: square_def)
  have up: "upper_pairs 3 = [(0, 1), (0, 2), (1, 2)]"
    by code_simp
  from flattener_upper_triangle [OF sq] sq show ?thesis
    by (simp add: up)
qed

text \<open>
  Claim C1.  The notebook takes the upper triangle of the distance matrix and of the
  signal correlation matrix with the same index arrays \<open>inds\<close>.  For two square
  matrices of the same size both vectors exist and have the same length, and their
  \<open>k\<close>-th elements are the entries of the two matrices at one and the same position
  \<open>(i, j)\<close> with \<open>i < j\<close>.  In particular the vectors of the matrices with entries
  \<open>i * n + j\<close> and \<open>100 + i * n + j\<close> differ by 100 at every index.
\<close>

theorem flattener_index_paired:
  assumes "square n M1" and "square n M2"
  shows "(\<exists>v1 v2. distance_vector n M1 = Inr v1 \<and> sc_vector n M2 = Inr v2
            \<and> length v1 = length v2
            \<and> (\<forall>k < length v1. \<exists>i j. i < j \<and> j < n \<and> v1 ! k = M1 ! i ! j \<and> v2 ! k = M2 ! i ! j))
       \<and> (\<exists>flat1 flat2. distance_vector n (index_matrix n 0) = Inr flat1
            \<and> sc_vector n (index_matrix n 100) = Inr flat2
            \<and> length flat1 = length flat2
            \<and> (\<forall>k < length flat1. flat2 ! k - flat1 ! k = 100))"
proof
  let ?v1 = "map (\<lambda>(i, j). M1 ! i ! j) (upper_pairs n)"
  let ?v2 = "map (\<lambda>(i, j). M2 ! i ! j) (upper_pairs n)"
  have "distance_vector n M1 = Inr ?v1" "sc_vector n M2 = Inr ?v2"
    using assms by (simp_all add: distance_vector_def sc_vector_def index2_square)
  moreover have "length ?v1 = length ?v2"
    by simp
  moreover have "\<forall>k < length ?v1. \<exists>i j. i < j \<and> j < n \<and> ?v1 ! k = M1 ! i ! j \<and> ?v2 ! k = M2 ! i ! j"
  proof (intro allI impI)
    fix k assume "k < length ?v1"
    then have k: "k < length (upper_pairs n)" by simp
    obtain i j where ij: "upper_pairs n ! k = (i, j)"
      by (cases "upper_pairs n ! k")
    with upper_pairs_nth [OF k] have "i < j" "j < n" by simp_all
    with k ij show "\<exists>i j. i < j \<and> j < n \<and> ?v1 ! k = M1 ! i ! j \<and> ?v2 ! k = M2 ! i ! j"
      by auto
  qed
  ultimately show "\<exists>v1 v2. distance_vector n M1 = Inr v1 \<and> sc_vector n M2 = Inr v2
            \<and> length v1 = length v2
            \<and> (\<forall>k < length v1. \<exists>i j. i < j \<and> j < n \<and> v1 ! k = M1 ! i ! j \<and> v2 ! k = M2 ! i ! j)"
    by blast
next
  let ?f1 = "map (\<lambda>(i, j). index_matrix n 0 ! i ! j) (upper_pairs n)"
  let ?f2 = "map (\<lambda>(i, j). index_matrix n 100 ! i ! j) (upper_pairs n)"
  have "distance_vector n (index_matrix n 0) = Inr ?f1" "sc_vector n (index_matrix n 100) = Inr ?f2"
    by (simp_all add: distance_vector_def sc_vector_def index2_square square_index_matrix)
  moreover have "length ?f1 = length ?f2"
    by simp
  moreover have "\<forall>k < length ?f1. ?f2 ! k - ?f1 ! k = 100"
  proof (intro allI impI)
    fix k assume "k < length ?f1"
    then have k: "k < length (upper_pairs n)" by simp
    obtain i j where ij: "upper_pairs n ! k = (i, j)"
      by (cases "upper_pairs n ! k")
    with upper_pairs_nth [OF k] have "i < n" "j < n" by simp_all
    with k ij show "?f2 ! k - ?f1 ! k = 100"
      by (simp add: index_matrix_nth)
  qed
  ultimately show "\<exists>flat1 flat2. distance_vector n (index_matrix n 0) = Inr flat1
            \<and> sc_vector n (index_matrix n 100) = Inr flat2
            \<and> length flat1 = length flat2
            \<and> (\<forall>k < length flat1. flat2 ! k - flat1 ! k = 100)"
    by blast
qed

text \<open>The alignment test for three by three matrices.\<close>

theorem flattener_index_paired_witness:
  "square 3 (index_matrix 3 0) \<and> square 3 (index_matrix 3 100)
   \<and> distance_vector 3 (index_matrix 3 0) = Inr [1, 2, 5]
   \<and> sc_vector 3 (index_matrix 3 100) = Inr [101, 102, 105]
   \<and> [101, 102, 105 :: int] ! 0 - [1, 2, 5] ! 0 = 100
   \<and> [101, 102, 105 :: int] ! 1 - [1, 2, 5] ! 1 = 100
   \<and> [101, 102, 105 :: int] ! 2 - [1, 2, 5] ! 2 = 100"
proof -
  have sq: "square 3 (index_matrix 3 0)" "square 3 (index_matrix 3 100)"
    by (rule square_index_matrix)+
  have v: "distance_vector 3 (index_matrix 3 0) = Inr [1, 2, 5]"
    "sc_vector 3 (index_matrix 3 100) = Inr [101, 102, 105]"
    by code_simp+
  from flattener_index_paired [OF sq] have
    "\<exists>flat1 flat2. distance_vector 3 (index_matrix 3 0) = Inr flat1
        \<and> sc_vector 3 (index_matrix 3 100) = Inr flat2
        \<and> length flat1 = length flat2
        \<and> (\<forall>k < length flat1. flat2 ! k - flat1 ! k = 100)"
    by blast
  then have "\<forall>k < 3. [101, 102, 105 :: int] ! k - [1, 2, 5] ! k = 100"
    by (simp add: v)
  then have "[101, 102, 105 :: int] ! 0 - [1, 2, 5] ! 0 = 100"
    "[101, 102, 105 :: int] ! 1 - [1, 2, 5] ! 1 = 100"
    "[101, 102, 105 :: int] ! 2 - [1, 2, 5] ! 2 = 100"
    by simp_all
  with sq v show ?thesis
    by blast
qed

section \<open>Properties of the rounding\<close>

lemma round_even_eqI:
  assumes "of_int n - 1 / 2 < y" and "y < of_int n + 1 / 2"
  shows "round_even y = n"
proof -
  have "\<lfloor>y\<rfloor> = n \<or> \<lfloor>y\<rfloor> = n - 1"
    using assms by linarith
  then show ?thesis
  proof
    assume "\<lfloor>y\<rfloor> = n"
    with assms show ?thesis by (simp add: round_even_def Let_def)
  next
    assume f: "\<lfloor>y\<rfloor> = n - 1"
    then have "y < of_int n" by linarith
    with f assms show ?thesis by (simp add: round_even_def Let_def)
  qed
qed

lemma round_even_of_int: "round_even (of_int n) = n"
  by (rule round_even_eqI) simp_all

lemma round_even_err: "\<bar>of_int (round_even y) - y\<bar> \<le> 1 / 2"
proof -
  have "of_int \<lfloor>y\<rfloor> \<le> y" "y < of_int \<lfloor>y\<rfloor> + 1"
    by linarith+
  then show ?thesis
    by (auto simp: round_even_def Let_def)
qed

lemma round_even_nonneg: "0 \<le> y \<Longrightarrow> 0 \<le> round_even y"
proof -
  assume "0 \<le> y"
  then have "0 \<le> \<lfloor>y\<rfloor>" by simp
  then show ?thesis
    by (auto simp: round_even_def Let_def)
qed

lemma floor_log2_eq:
  assumes "0 < x" and "2 powr of_int k \<le> x" and "x < 2 powr (of_int k + 1)"
  shows "\<lfloor>log 2 x\<rfloor> = k"
proof -
  have "of_int k \<le> log 2 x"
    using assms by (simp add: le_log_iff)
  moreover have "log 2 x < of_int k + 1"
    using assms by (simp add: log_less_iff)
  ultimately show ?thesis
    by linarith
qed

lemma fl_pos_eq:
  assumes "0 < x" and "2 powr (of_int e + 52) \<le> x" and "x < 2 powr (of_int e + 53)"
  shows "fl_pos x = of_int (round_even (x / 2 powr of_int e)) * 2 powr of_int e"
proof -
  have "\<lfloor>log 2 x\<rfloor> = e + 52"
    using assms by (intro floor_log2_eq) (simp_all add: add.commute add.left_commute)
  then show ?thesis
    by (simp add: fl_pos_def)
qed

lemma fl_pos_bounds:
  assumes "0 < x"
  defines "e \<equiv> \<lfloor>log 2 x\<rfloor> - 52"
  shows "2 powr (of_int e + 52) \<le> x" and "x < 2 powr (of_int e + 53)"
proof -
  have "2 powr of_int \<lfloor>log 2 x\<rfloor> \<le> 2 powr log 2 x"
    by (simp del: powr_log_cancel)
  then have "2 powr of_int \<lfloor>log 2 x\<rfloor> \<le> x"
    using assms(1) by simp
  then show "2 powr (of_int e + 52) \<le> x"
    by (simp add: e_def)
  have "log 2 x < of_int \<lfloor>log 2 x\<rfloor> + 1" by linarith
  then have "2 powr log 2 x < 2 powr (of_int \<lfloor>log 2 x\<rfloor> + 1)"
    by (simp only: powr_less_cancel_iff)
  then have "x < 2 powr (of_int \<lfloor>log 2 x\<rfloor> + 1)"
    using assms(1) by simp
  then show "x < 2 powr (of_int e + 53)"
    by (simp add: e_def add.commute)
qed

lemma fl_0: "fl 0 = 0"
  by (simp add: fl_def)

lemma fl_minus: "fl (- x) = - fl x"
  by (simp add: fl_def sgn_minus)

lemma fl_pos_nonneg: "0 < x \<Longrightarrow> 0 \<le> fl_pos x"
  by (simp add: fl_pos_def Let_def round_even_nonneg)

lemma fl_nonneg: "0 \<le> x \<Longrightarrow> 0 \<le> fl x"
  by (cases "x = 0") (simp_all add: fl_def fl_pos_nonneg)

lemma fl_pos_err:
  assumes "0 < x"
  shows "\<bar>fl_pos x - x\<bar> \<le> x / 2 ^ 53"
proof -
  define e where "e = \<lfloor>log 2 x\<rfloor> - 52"
  define p :: real where "p = 2 powr of_int e"
  have p: "0 < p" by (simp add: p_def)
  have "2 powr (of_int e + 52) = 2 ^ 52 * p"
    by (simp add: p_def powr_add)
  moreover have "2 powr (of_int e + 52) \<le> x"
    unfolding e_def using assms by (rule fl_pos_bounds(1))
  ultimately have lo: "2 ^ 52 * p \<le> x"
    by simp
  have "fl_pos x = of_int (round_even (x / p)) * p"
    by (simp add: fl_pos_def e_def p_def)
  then have "fl_pos x - x = (of_int (round_even (x / p)) - x / p) * p"
    using p by (simp add: field_simps)
  then have "\<bar>fl_pos x - x\<bar> = \<bar>of_int (round_even (x / p)) - x / p\<bar> * p"
    using p by (simp add: abs_mult)
  also have "\<dots> \<le> 1 / 2 * p"
    using p round_even_err [of "x / p"] by (intro mult_right_mono) simp_all
  also have "\<dots> \<le> x / 2 ^ 53"
    using lo by simp
  finally show ?thesis .
qed

lemma fl_err: "\<bar>fl x - x\<bar> \<le> \<bar>x\<bar> / 2 ^ 53"
proof (cases "x = 0")
  case True
  then show ?thesis by (simp add: fl_def)
next
  case False
  then have "0 < \<bar>x\<bar>" by simp
  from fl_pos_err [OF this] have "\<bar>fl_pos \<bar>x\<bar> - \<bar>x\<bar>\<bar> \<le> \<bar>x\<bar> / 2 ^ 53" .
  moreover have "sgn x * \<bar>x\<bar> = x"
    by (rule mult_sgn_abs)
  then have "fl x - x = sgn x * (fl_pos \<bar>x\<bar> - \<bar>x\<bar>)"
    using False by (simp add: fl_def right_diff_distrib)
  ultimately show ?thesis
    using False by (simp add: abs_mult)
qed

lemma fl_exact_pos:
  assumes "(2::int) ^ 52 \<le> m" and "m < 2 ^ 53"
  shows "fl (of_int m * 2 powr of_int e) = of_int m * 2 powr of_int e"
proof -
  let ?x = "of_int m * 2 powr of_int e :: real"
  have "(of_int ((2::int) ^ 52) :: real) \<le> of_int m" "(of_int m :: real) < of_int ((2::int) ^ 53)"
    using assms by (simp_all only: of_int_le_iff of_int_less_iff)
  then have m: "(2::real) ^ 52 \<le> of_int m" "of_int m < (2::real) ^ 53"
    by simp_all
  have x: "0 < ?x" using m by (simp add: zero_less_mult_iff)
  have "2 powr (of_int e + 52) \<le> ?x"
    using m by (simp add: powr_add)
  moreover have "?x < 2 powr (of_int e + 53)"
    using m by (simp add: powr_add)
  ultimately have "fl_pos ?x = of_int (round_even (?x / 2 powr of_int e)) * 2 powr of_int e"
    using x by (intro fl_pos_eq)
  also have "?x / 2 powr of_int e = of_int m" by simp
  finally have "fl_pos ?x = ?x" by (simp add: round_even_of_int)
  with x show ?thesis by (simp add: fl_def)
qed


lemma normalise_nat:
  "0 < n \<Longrightarrow> n < 2 ^ 53 \<Longrightarrow> \<exists>k. (2::nat) ^ 52 \<le> n * 2 ^ k \<and> n * 2 ^ k < 2 ^ 53"
proof (induction n rule: measure_induct_rule [of "\<lambda>n. 2 ^ 53 - n"])
  case (less n)
  show ?case
  proof (cases "2 ^ 52 \<le> n")
    case True
    with less.prems have "2 ^ 52 \<le> n * 2 ^ 0 \<and> n * 2 ^ 0 < 2 ^ 53" by simp
    then show ?thesis by blast
  next
    case False
    with less.prems have "2 ^ 53 - 2 * n < 2 ^ 53 - n" "0 < 2 * n" "2 * n < 2 ^ 53"
      by simp_all
    from less.IH [OF this] obtain k where "2 ^ 52 \<le> 2 * n * 2 ^ k \<and> 2 * n * 2 ^ k < 2 ^ 53"
      by blast
    then have "2 ^ 52 \<le> n * 2 ^ Suc k \<and> n * 2 ^ Suc k < 2 ^ 53"
      by (simp add: mult.commute mult.left_commute)
    then show ?thesis by blast
  qed
qed

lemma fl_of_nat:
  assumes "n < 2 ^ 53"
  shows "fl (real n) = real n"
proof (cases "n = 0")
  case True
  then show ?thesis by (simp add: fl_0)
next
  case False
  with assms obtain k where k: "(2::nat) ^ 52 \<le> n * 2 ^ k" "n * 2 ^ k < 2 ^ 53"
    using normalise_nat [of n] by auto
  have "int (2 ^ 52) \<le> int (n * 2 ^ k)" "int (n * 2 ^ k) < int (2 ^ 53)"
    using k by (simp_all only: of_nat_le_iff of_nat_less_iff)
  then have "(2::int) ^ 52 \<le> int (n * 2 ^ k)" "int (n * 2 ^ k) < 2 ^ 53"
    by simp_all
  from fl_exact_pos [OF this, of "- int k"]
  have "fl (real n * 2 ^ k * 2 powr - real k) = real n * 2 ^ k * 2 powr - real k"
    by simp
  moreover have "real n * 2 ^ k * 2 powr - real k = real n"
    by (simp add: powr_minus powr_realpow)
  ultimately show ?thesis by simp
qed

lemma fl_numeral: "(numeral w :: nat) < 2 ^ 53 \<Longrightarrow> fl (numeral w) = numeral w"
  using fl_of_nat [of "numeral w"] by simp

lemma fl_1: "fl 1 = 1"
  using fl_of_nat [of 1] by simp

lemma fl_neg_numeral: "(numeral w :: nat) < 2 ^ 53 \<Longrightarrow> fl (- numeral w) = - numeral w"
  by (simp add: fl_minus fl_numeral)

lemma sqrt_sq: "0 \<le> a \<Longrightarrow> sqrt (a * a) = a"
  by simp


section \<open>The loops of step 6 in closed form\<close>

lemma update_prefix:
  assumes "n < length xs"
  shows "(map f [0..<n] @ drop n xs)[n := f n] = map f [0..<Suc n] @ drop (Suc n) xs"
proof -
  have "(map f [0..<n] @ drop n xs)[n := f n] = map f [0..<n] @ (drop n xs)[0 := f n]"
    by (simp add: list_update_append)
  also have "(drop n xs)[0 := f n] = f n # drop (Suc n) xs"
    using assms by (metis Cons_nth_drop_Suc list_update_code(2))
  finally show ?thesis by simp
qed

lemma fold_upt_Suc: "fold g [0..<Suc n] s = g n (fold g [0..<n] s)"
  by simp

lemma loc_fold:
  assumes "n \<le> length lx" and "n \<le> length ly"
  shows "fold (loc_step rois) [0..<n] (lx, ly) =
           (map (\<lambda>i. np_mean (snd (np_where (rois ! i)))) [0..<n] @ drop n lx,
            map (\<lambda>i. np_mean (fst (np_where (rois ! i)))) [0..<n] @ drop n ly)"
  using assms
proof (induction n)
  case 0
  then show ?case by simp
next
  case (Suc n)
  then have n: "n < length lx" "n < length ly" by simp_all
  with Suc.IH show ?case
    using update_prefix [OF n(1), of "\<lambda>i. np_mean (snd (np_where (rois ! i)))"]
      update_prefix [OF n(2), of "\<lambda>i. np_mean (fst (np_where (rois ! i)))"]
    by (simp add: fold_upt_Suc loc_step_def Let_def del: upt_Suc)
qed

lemma loc_eq:
  "loc rois = (map (\<lambda>i. np_mean (snd (np_where (rois ! i)))) [0..<length rois],
               map (\<lambda>i. np_mean (fst (np_where (rois ! i)))) [0..<length rois])"
  by (simp add: loc_def Let_def loc_fold np_zeros_def)

lemma distance_row_eq:
  assumes "i < length d" and "m \<le> length (d ! i)"
  shows "fold (\<lambda>j d. d[i := (d ! i)[j := f j]]) [0..<m] d = d[i := map f [0..<m] @ drop m (d ! i)]"
  using assms
proof (induction m)
  case 0
  then show ?case by simp
next
  case (Suc m)
  then have m: "m < length (d ! i)" by simp
  with Suc show ?case
    by (simp add: fold_upt_Suc update_prefix del: upt_Suc)
qed

lemma distance_fold:
  assumes "n \<le> length d" and "\<And>i. i < length d \<Longrightarrow> length (d ! i) = N"
  shows "fold (\<lambda>i. fold (\<lambda>j d. d[i := (d ! i)[j := f i j]]) [0..<N]) [0..<n] d =
           map (\<lambda>i. map (f i) [0..<N]) [0..<n] @ drop n d"
  using assms(1)
proof (induction n)
  case 0
  then show ?case by simp
next
  case (Suc n)
  then have n: "n < length d" by simp
  let ?d = "map (\<lambda>i. map (f i) [0..<N]) [0..<n] @ drop n d"
  have len: "n < length ?d" using n by simp
  have row: "?d ! n = d ! n" using n by (simp add: nth_append)
  have "fold (\<lambda>j d. d[n := (d ! n)[j := f n j]]) [0..<N] ?d = ?d[n := map (f n) [0..<N] @ drop N (?d ! n)]"
    using len by (rule distance_row_eq) (simp add: row assms(2) n)
  also have "\<dots> = ?d[n := map (f n) [0..<N]]"
    by (simp add: row assms(2) n)
  also have "\<dots> = map (\<lambda>i. map (f i) [0..<N]) [0..<Suc n] @ drop (Suc n) d"
    using n by (rule update_prefix)
  finally show ?case
    using Suc by (simp add: fold_upt_Suc del: upt_Suc)
qed

lemma distance_eq:
  "distance N lx ly =
     map (\<lambda>i. map (\<lambda>j. np_sqrt (np_add (np_pow2 (np_sub (lx ! i) (lx ! j)))
                                       (np_pow2 (np_sub (ly ! i) (ly ! j))))) [0..<N]) [0..<N]"
proof -
  have "fold (\<lambda>i. fold (\<lambda>j d. d[i := (d ! i)[j :=
            np_sqrt (np_add (np_pow2 (np_sub (lx ! i) (lx ! j)))
                            (np_pow2 (np_sub (ly ! i) (ly ! j))))]]) [0..<N]) [0..<N] (np_zeros2 N N)
        = map (\<lambda>i. map (\<lambda>j. np_sqrt (np_add (np_pow2 (np_sub (lx ! i) (lx ! j)))
                                       (np_pow2 (np_sub (ly ! i) (ly ! j))))) [0..<N]) [0..<N]
          @ drop N (np_zeros2 N N)"
    by (rule distance_fold) (simp_all add: np_zeros2_def)
  moreover have "distance_row N lx ly = (\<lambda>i. fold (\<lambda>j d. d[i := (d ! i)[j :=
            np_sqrt (np_add (np_pow2 (np_sub (lx ! i) (lx ! j)))
                            (np_pow2 (np_sub (ly ! i) (ly ! j))))]]) [0..<N])"
    by (rule ext) (simp add: distance_row_def)
  ultimately show ?thesis
    by (simp add: distance_def np_zeros2_def)
qed

lemma set_true_positions: "set (true_positions m) = true_set m"
  by (force simp: true_positions_def true_set_def)

lemma distinct_true_positions: "distinct (true_positions m)"
  unfolding true_positions_def
  by (rule row_major_distinct, rule sorted_grid) (simp_all add: sorted_wrt_filter)

lemma map_nth_upt_filter: "map ((!) [0..<n]) (filter P [0..<n]) = filter P [0..<n]"
  by (rule map_idI) simp

lemma np_where_eq: "np_where m = (map fst (true_positions m), map snd (true_positions m))"
proof -
  have r: "np_bool_index (map (\<lambda>i. replicate (length (m ! i)) i) [0..<length m]) m
           = map fst (true_positions m)"
    unfolding np_bool_index_def true_positions_def map_concat
    by (rule arg_cong [where f = concat]) (auto simp: comp_def)
  have c: "np_bool_index (map (\<lambda>i. [0..<length (m ! i)]) [0..<length m]) m
           = map snd (true_positions m)"
    unfolding np_bool_index_def true_positions_def map_concat
    by (rule arg_cong [where f = concat]) (auto simp: comp_def map_nth_upt_filter)
  show ?thesis
    by (simp add: np_where_def r c)
qed

lemma sum_true_positions:
  "real (sum_list (map f (true_positions m))) = (\<Sum>p\<in>true_set m. real (f p))"
  using distinct_true_positions [of m]
  by (simp add: sum_list_distinct_conv_sum_set set_true_positions)

lemma length_true_positions: "length (true_positions m) = card (true_set m)"
  using distinct_true_positions [of m] set_true_positions [of m]
  by (metis distinct_card)

lemma true_positions_Nil: "true_positions m = [] \<longleftrightarrow> true_set m = {}"
  using set_true_positions [of m] by (metis set_empty)


lemma loc_x_nth:
  "i < length rois \<Longrightarrow> loc_x rois ! i = np_mean (map snd (true_positions (rois ! i)))"
  by (simp add: loc_x_def loc_eq np_where_eq)

lemma loc_y_nth:
  "i < length rois \<Longrightarrow> loc_y rois ! i = np_mean (map fst (true_positions (rois ! i)))"
  by (simp add: loc_y_def loc_eq np_where_eq)

lemma length_loc: "length (loc_x rois) = length rois" "length (loc_y rois) = length rois"
  by (simp_all add: loc_x_def loc_y_def loc_eq)

lemma distance_nth:
  "i < N \<Longrightarrow> j < N \<Longrightarrow>
   distance N lx ly ! i ! j =
     np_sqrt (np_add (np_pow2 (np_sub (lx ! i) (lx ! j))) (np_pow2 (np_sub (ly ! i) (ly ! j))))"
  by (simp add: distance_eq)

lemma np_mean_fin:
  "xs \<noteq> [] \<Longrightarrow> np_mean xs = Fin (fl (real (sum_list xs) / real (length xs)))"
  by (simp add: np_mean_def)

lemma entry_fin:
  "np_sqrt (np_add (np_pow2 (np_sub (Fin a) (Fin b))) (np_pow2 (np_sub (Fin c) (Fin d))))
   = Fin (fl (sqrt (fl (fl (fl (a - b) * fl (a - b)) + fl (fl (c - d) * fl (c - d))))))"
proof -
  have "0 \<le> fl (fl (fl (a - b) * fl (a - b)) + fl (fl (c - d) * fl (c - d)))"
    by (intro fl_nonneg add_nonneg_nonneg) simp_all
  then show ?thesis by (simp add: not_less [symmetric])
qed

lemma entry_sym:
  "fl (sqrt (fl (fl (fl (a - b) * fl (a - b)) + fl (fl (c - d) * fl (c - d)))))
   = fl (sqrt (fl (fl (fl (b - a) * fl (b - a)) + fl (fl (d - c) * fl (d - c)))))"
proof -
  have "fl (a - b) = - fl (b - a)" "fl (c - d) = - fl (d - c)"
    using fl_minus [of "b - a"] fl_minus [of "d - c"] by simp_all
  then show ?thesis by simp
qed

lemma np_mean_positions:
  assumes "true_set m \<noteq> {}"
  shows "np_mean (map f (true_positions m)) =
           Fin (fl ((\<Sum>p\<in>true_set m. real (f p)) / real (card (true_set m))))"
proof -
  from assms have "true_positions m \<noteq> []"
    by (simp add: true_positions_Nil)
  then show ?thesis
    by (simp add: np_mean_def sum_true_positions length_true_positions)
qed

lemma sqrt_values: "sqrt 9 = 3" "sqrt 16 = 4" "sqrt 25 = 5"
  using sqrt_sq [of 3] sqrt_sq [of 4] sqrt_sq [of 5] by simp_all

lemma upt_3: "[0..<3] = [0, 1, 2]"
  by code_simp

lemma true_set_single_pixel:
  "r < h \<Longrightarrow> c < w \<Longrightarrow> true_set (single_pixel h w r c) = {(r, c)}"
  by (auto simp: true_set_def single_pixel_def)

section \<open>The centroids\<close>

text \<open>
  Claim C5.  For a mask with at least one true entry the notebook stores the mean of
  the row indices of the true entries in \<open>loc_y\<close> and the mean of their column indices
  in \<open>loc_x\<close>; the centroid in (row, column) order is the pair \<open>(loc_y[i], loc_x[i])\<close>.
  The mean is the one \<^verbatim>\<open>np.mean\<close> computes: the exact quotient of the sum by the count,
  rounded to \<^verbatim>\<open>float64\<close>.
\<close>

theorem centroid_is_mean:
  assumes "i < length rois" and "true_set (rois ! i) \<noteq> {}"
  shows "(loc_y rois ! i, loc_x rois ! i) =
           (Fin (fl ((\<Sum>p\<in>true_set (rois ! i). real (fst p)) / real (card (true_set (rois ! i))))),
            Fin (fl ((\<Sum>p\<in>true_set (rois ! i). real (snd p)) / real (card (true_set (rois ! i))))))"
proof -
  from assms(2) have ne: "true_positions (rois ! i) \<noteq> []"
    by (simp add: true_positions_Nil)
  have "real (sum_list (map fst (true_positions (rois ! i)))) = (\<Sum>p\<in>true_set (rois ! i). real (fst p))"
    "real (sum_list (map snd (true_positions (rois ! i)))) = (\<Sum>p\<in>true_set (rois ! i). real (snd p))"
    by (rule sum_true_positions)+
  with ne assms(1) show ?thesis
    by (simp add: loc_x_nth loc_y_nth np_mean_def length_true_positions)
qed


text \<open>A mask with true pixels at \<open>(0, 0)\<close> and \<open>(0, 2)\<close>: row mean 0, column mean 1.\<close>

theorem centroid_is_mean_witness:
  "0 < length [[[True, False, True]]] 
   \<and> true_set ([[[True, False, True]]] ! 0) = {(0, 0), (0, 2)}
   \<and> (loc_y [[[True, False, True]]] ! 0, loc_x [[[True, False, True]]] ! 0) = (Fin 0, Fin 1)"
proof -
  have "true_positions [[True, False, True]] = [(0, 0), (0, 2)]"
    by code_simp
  then have t: "true_set ([[[True, False, True]]] ! 0) = {(0, 0), (0, 2)}"
    by (simp flip: set_true_positions)
  then have ne: "true_set ([[[True, False, True]]] ! 0) \<noteq> {}"
    by simp
  have l: "0 < length [[[True, False, True]]]"
    by simp
  from centroid_is_mean [OF l ne]
  have "(loc_y [[[True, False, True]]] ! 0, loc_x [[[True, False, True]]] ! 0) = (Fin 0, Fin 1)"
    unfolding t by (simp add: fl_0 fl_1)
  with l t show ?thesis
    by blast
qed

text \<open>
  Claim C2 says that a mask with no true entry makes the centroid extractor fail with
  \<^verbatim>\<open>EmptyMaskError\<close>.  The notebook raises nothing: for the two by two mask that is
  false everywhere the loop finishes and both coordinates are \<open>NaN\<close>.
\<close>

theorem empty_mask_centroid_is_nan:
  "true_set [[False, False], [False, False]] = {}
   \<and> loc [[[False, False], [False, False]]] = ([NaN], [NaN])"
proof -
  have "true_positions [[False, False], [False, False]] = []"
    by code_simp
  then show ?thesis
    by (simp add: loc_eq np_where_eq np_mean_def flip: true_positions_Nil)
qed

text \<open>
  Claim C2 as the code has it: for every mask with no true entry the extractor returns,
  and both coordinates of the centroid of that mask are \<open>NaN\<close>.
\<close>

theorem empty_mask_centroid:
  assumes "i < length rois" and "true_set (rois ! i) = {}"
  shows "loc_x rois ! i = NaN \<and> loc_y rois ! i = NaN"
  using assms by (simp add: loc_x_nth loc_y_nth np_mean_def true_positions_Nil [symmetric])

text \<open>The one by one mask that is false.\<close>

theorem empty_mask_centroid_witness:
  "0 < length [[[False]]] \<and> true_set ([[[False]]] ! 0) = {}
   \<and> loc_x [[[False]]] ! 0 = NaN \<and> loc_y [[[False]]] ! 0 = NaN"
proof -
  have "true_positions [[False]] = []"
    by code_simp
  then have e: "true_set ([[[False]]] ! 0) = {}"
    by (simp flip: true_positions_Nil)
  have l: "0 < length [[[False]]]"
    by simp
  from empty_mask_centroid [OF l e] l e show ?thesis
    by blast
qed

section \<open>The distance matrix\<close>

text \<open>
  Claim C4.  When every mask has a true entry, the distance matrix computed from the
  masks has a zero diagonal and is symmetric, and its entries are numbers (not \<open>NaN\<close>,
  which would compare unequal to itself).  Both hold entry by entry as the loop
  writes them; nothing is enforced afterwards.
\<close>

theorem distance_symmetric_zero_diagonal:
  assumes "\<forall>i < length rois. true_set (rois ! i) \<noteq> {}"
    and "i < length rois" and "j < length rois"
  shows "distance_of_rois rois ! i ! i = Fin 0
       \<and> distance_of_rois rois ! i ! j = distance_of_rois rois ! j ! i
       \<and> distance_of_rois rois ! i ! j \<noteq> NaN"
proof -
  have fin: "\<exists>x y. loc_x rois ! k = Fin x \<and> loc_y rois ! k = Fin y" if "k < length rois" for k
  proof -
    from that assms(1) have "true_positions (rois ! k) \<noteq> []"
      by (simp add: true_positions_Nil)
    with that show ?thesis
      by (simp add: loc_x_nth loc_y_nth np_mean_def)
  qed
  from fin [OF assms(2)] obtain xi yi where i: "loc_x rois ! i = Fin xi" "loc_y rois ! i = Fin yi"
    by blast
  from fin [OF assms(3)] obtain xj yj where j: "loc_x rois ! j = Fin xj" "loc_y rois ! j = Fin yj"
    by blast
  have ii: "distance_of_rois rois ! i ! i = Fin 0"
    using assms(2) by (simp add: distance_of_rois_def distance_nth i fl_0)
  have ij: "distance_of_rois rois ! i ! j =
      Fin (fl (sqrt (fl (fl (fl (xi - xj) * fl (xi - xj)) + fl (fl (yi - yj) * fl (yi - yj))))))"
    using assms(2,3) by (simp only: distance_of_rois_def distance_nth i j entry_fin)
  have ji: "distance_of_rois rois ! j ! i =
      Fin (fl (sqrt (fl (fl (fl (xj - xi) * fl (xj - xi)) + fl (fl (yj - yi) * fl (yj - yi))))))"
    using assms(2,3) by (simp only: distance_of_rois_def distance_nth i j entry_fin)
  from ii ij ji show ?thesis
    by (simp add: entry_sym [of xi xj yi yj])
qed

text \<open>Two single-pixel masks.\<close>

theorem distance_symmetric_zero_diagonal_witness:
  "true_set (single_pixel 5 4 0 3) \<noteq> {} \<and> true_set (single_pixel 5 4 4 0) \<noteq> {}
   \<and> distance_of_rois [single_pixel 5 4 0 3, single_pixel 5 4 4 0] ! 0 ! 0 = Fin 0
   \<and> distance_of_rois [single_pixel 5 4 0 3, single_pixel 5 4 4 0] ! 0 ! 1
       = distance_of_rois [single_pixel 5 4 0 3, single_pixel 5 4 4 0] ! 1 ! 0
   \<and> distance_of_rois [single_pixel 5 4 0 3, single_pixel 5 4 4 0] ! 0 ! 1 \<noteq> NaN"
proof -
  let ?rois = "[single_pixel 5 4 0 3, single_pixel 5 4 4 0]"
  have ne: "true_set (single_pixel 5 4 0 3) \<noteq> {}" "true_set (single_pixel 5 4 4 0) \<noteq> {}"
    by (simp_all add: true_set_single_pixel)
  then have all: "\<forall>i < length ?rois. true_set (?rois ! i) \<noteq> {}"
    by (simp add: less_Suc_eq)
  have "0 < length ?rois" "1 < length ?rois"
    by simp_all
  from distance_symmetric_zero_diagonal [OF all this] ne show ?thesis
    by blast
qed

text \<open>
  Claim C8.  Three masks whose true pixels are \<open>(0, 0)\<close>, \<open>(0, 3)\<close> and \<open>(4, 0)\<close> have the
  centroids \<open>(0, 0)\<close>, \<open>(0, 3)\<close>, \<open>(4, 0)\<close> in (row, column) order, that is
  \<open>loc_y = [0, 0, 4]\<close> and \<open>loc_x = [0, 3, 0]\<close>, and the distance matrix of the 3-4-5
  triangle, exactly.
\<close>

theorem triangle_345:
  assumes "true_set m0 = {(0, 0)}" and "true_set m1 = {(0, 3)}" and "true_set m2 = {(4, 0)}"
  shows "loc_y [m0, m1, m2] = [Fin 0, Fin 0, Fin 4]
       \<and> loc_x [m0, m1, m2] = [Fin 0, Fin 3, Fin 0]
       \<and> distance_of_rois [m0, m1, m2] =
           [[Fin 0, Fin 3, Fin 4], [Fin 3, Fin 0, Fin 5], [Fin 4, Fin 5, Fin 0]]"
proof -
  have m: "np_mean (map fst (true_positions m0)) = Fin 0" "np_mean (map snd (true_positions m0)) = Fin 0"
    "np_mean (map fst (true_positions m1)) = Fin 0" "np_mean (map snd (true_positions m1)) = Fin 3"
    "np_mean (map fst (true_positions m2)) = Fin 4" "np_mean (map snd (true_positions m2)) = Fin 0"
    using assms by (simp_all add: np_mean_positions fl_0 fl_numeral)
  have y: "loc_y [m0, m1, m2] = [Fin 0, Fin 0, Fin 4]"
    by (simp add: loc_y_def loc_eq np_where_eq m)
  have x: "loc_x [m0, m1, m2] = [Fin 0, Fin 3, Fin 0]"
    by (simp add: loc_x_def loc_eq np_where_eq m)
  have "distance 3 [Fin 0, Fin 3, Fin 0] [Fin 0, Fin 0, Fin 4] =
          [[Fin 0, Fin 3, Fin 4], [Fin 3, Fin 0, Fin 5], [Fin 4, Fin 5, Fin 0]]"
    by (simp add: distance_eq upt_3 fl_0 fl_numeral fl_neg_numeral sqrt_values)
  moreover have "length [m0, m1, m2] = 3"
    by simp
  ultimately show ?thesis
    using x y by (simp only: distance_of_rois_def)
qed

text \<open>The three masks on a five by four grid.\<close>

theorem triangle_345_witness:
  "true_set (single_pixel 5 4 0 0) = {(0, 0)}
   \<and> true_set (single_pixel 5 4 0 3) = {(0, 3)}
   \<and> true_set (single_pixel 5 4 4 0) = {(4, 0)}
   \<and> loc_y [single_pixel 5 4 0 0, single_pixel 5 4 0 3, single_pixel 5 4 4 0] = [Fin 0, Fin 0, Fin 4]
   \<and> loc_x [single_pixel 5 4 0 0, single_pixel 5 4 0 3, single_pixel 5 4 4 0] = [Fin 0, Fin 3, Fin 0]
   \<and> distance_of_rois [single_pixel 5 4 0 0, single_pixel 5 4 0 3, single_pixel 5 4 4 0] =
        [[Fin 0, Fin 3, Fin 4], [Fin 3, Fin 0, Fin 5], [Fin 4, Fin 5, Fin 0]]"
proof -
  have t: "true_set (single_pixel 5 4 0 0) = {(0, 0)}"
    "true_set (single_pixel 5 4 0 3) = {(0, 3)}"
    "true_set (single_pixel 5 4 4 0) = {(4, 0)}"
    by (simp_all add: true_set_single_pixel)
  from triangle_345 [OF t] t show ?thesis
    by blast
qed

section \<open>Rounding error of a distance\<close>

lemma fl_eqI:
  assumes "2 ^ 52 \<le> x * 2 ^ k" and "x * 2 ^ k < 2 ^ 53"
    and "of_int M - 1 / 2 < x * 2 ^ k" and "x * 2 ^ k < of_int M + 1 / 2"
  shows "fl x = of_int M / 2 ^ k"
proof -
  have p: "2 powr of_int (- int k) = 1 / (2::real) ^ k"
    by (simp add: powr_minus powr_realpow divide_inverse)
  have x: "0 < x"
  proof (rule ccontr)
    assume "\<not> 0 < x"
    then have "x * 2 ^ k \<le> 0" by (simp add: mult_le_0_iff)
    with assms(1) show False by simp
  qed
  have "2 powr (of_int (- int k) + 52) = 2 ^ 52 / (2::real) ^ k"
    "2 powr (of_int (- int k) + 53) = 2 ^ 53 / (2::real) ^ k"
    by (simp_all only: powr_add p) simp_all
  moreover have "2 ^ 52 / (2::real) ^ k \<le> x" "x < 2 ^ 53 / (2::real) ^ k"
    using assms(1,2) by (simp_all add: field_simps)
  ultimately have "fl_pos x = of_int (round_even (x / 2 powr of_int (- int k))) * 2 powr of_int (- int k)"
    using x by (intro fl_pos_eq) simp_all
  moreover have "x / 2 powr of_int (- int k) = x * 2 ^ k"
    by (simp only: p) simp
  moreover have "round_even (x * 2 ^ k) = M"
    using assms(3,4) by (rule round_even_eqI)
  ultimately have "fl_pos x = of_int M / 2 ^ k"
    by (simp only: p) simp
  with x show ?thesis
    by (simp add: fl_def)
qed

lemma sqrt_scaled: "sqrt x * 2 ^ k = sqrt (x * 4 ^ k)"
proof -
  have "sqrt (4 ^ k) = 2 ^ k"
    by (simp add: real_sqrt_power)
  then show ?thesis
    by (simp add: real_sqrt_mult)
qed

lemma fl_sqrt_eqI:
  assumes "2 ^ 104 \<le> x * 4 ^ k" and "x * 4 ^ k < 2 ^ 106"
    and "0 < M" and "(2 * of_int M - 1)\<^sup>2 < 4 * (x * 4 ^ k)" and "4 * (x * 4 ^ k) < (2 * of_int M + 1)\<^sup>2"
  shows "fl (sqrt x) = of_int M / 2 ^ k"
proof (rule fl_eqI)
  have "sqrt (2 ^ 104) \<le> sqrt (x * 4 ^ k)"
    using assms(1) by (simp only: real_sqrt_le_iff)
  moreover have "sqrt (2 ^ 104) = 2 ^ 52"
    by (rule real_sqrt_unique) simp_all
  ultimately show "2 ^ 52 \<le> sqrt x * 2 ^ k"
    by (simp only: sqrt_scaled)
  have "sqrt (x * 4 ^ k) < sqrt (2 ^ 106)"
    using assms(2) by (simp only: real_sqrt_less_iff)
  moreover have "sqrt (2 ^ 106) = 2 ^ 53"
    by (rule real_sqrt_unique) simp_all
  ultimately show "sqrt x * 2 ^ k < 2 ^ 53"
    by (simp only: sqrt_scaled)
  have M: "(0::real) \<le> 2 * of_int M - 1" "(0::real) \<le> 2 * of_int M + 1"
    using assms(3) by simp_all
  have "sqrt ((2 * of_int M - 1)\<^sup>2) < sqrt (4 * (x * 4 ^ k))"
    using assms(4) by (simp only: real_sqrt_less_iff)
  then have "2 * of_int M - 1 < 2 * sqrt (x * 4 ^ k)"
    using M by (simp add: real_sqrt_mult)
  then show "of_int M - 1 / 2 < sqrt x * 2 ^ k"
    unfolding sqrt_scaled by linarith
  have "sqrt (4 * (x * 4 ^ k)) < sqrt ((2 * of_int M + 1)\<^sup>2)"
    using assms(5) by (simp only: real_sqrt_less_iff)
  then have "2 * sqrt (x * 4 ^ k) < 2 * of_int M + 1"
    using M by (simp add: real_sqrt_mult)
  then show "sqrt x * 2 ^ k < of_int M + 1 / 2"
    unfolding sqrt_scaled by linarith
qed

lemma fl_sqrt_2: "fl (sqrt 2) = 6369051672525773 / 2 ^ 52"
  using fl_sqrt_eqI [of 2 52 6369051672525773] by simp

lemma fl_sqrt_18: "fl (sqrt 18) = 4776788754394329 / 2 ^ 50"
  using fl_sqrt_eqI [of 18 50 4776788754394329] by simp

lemma fl_sqrt_32: "fl (sqrt 32) = 6369051672525773 / 2 ^ 50"
  using fl_sqrt_eqI [of 32 50 6369051672525773] by simp

lemma fl_sum: "fl (6369051672525773 / 2 ^ 52 + 4776788754394329 / 2 ^ 50) = 6369051672525772 / 2 ^ 50"
  using fl_eqI [of "6369051672525773 / 2 ^ 52 + 4776788754394329 / 2 ^ 50" 50 6369051672525772] by simp

lemma entries_0_1_4:
  "distance 3 [Fin 0, Fin 1, Fin 4] [Fin 0, Fin 1, Fin 4] ! 0 ! 1 = Fin (6369051672525773 / 2 ^ 52)"
  "distance 3 [Fin 0, Fin 1, Fin 4] [Fin 0, Fin 1, Fin 4] ! 1 ! 2 = Fin (4776788754394329 / 2 ^ 50)"
  "distance 3 [Fin 0, Fin 1, Fin 4] [Fin 0, Fin 1, Fin 4] ! 0 ! 2 = Fin (6369051672525773 / 2 ^ 50)"
proof -
  have "distance 3 [Fin 0, Fin 1, Fin 4] [Fin 0, Fin 1, Fin 4] ! 0 ! 1 = Fin (fl (sqrt 2))"
    by (simp add: distance_nth fl_0 fl_1 fl_numeral fl_neg_numeral fl_minus)
  then show "distance 3 [Fin 0, Fin 1, Fin 4] [Fin 0, Fin 1, Fin 4] ! 0 ! 1
      = Fin (6369051672525773 / 2 ^ 52)"
    by (simp only: fl_sqrt_2)
  have "distance 3 [Fin 0, Fin 1, Fin 4] [Fin 0, Fin 1, Fin 4] ! 1 ! 2 = Fin (fl (sqrt 18))"
    by (simp add: distance_nth fl_0 fl_1 fl_numeral fl_neg_numeral fl_minus)
  then show "distance 3 [Fin 0, Fin 1, Fin 4] [Fin 0, Fin 1, Fin 4] ! 1 ! 2
      = Fin (4776788754394329 / 2 ^ 50)"
    by (simp only: fl_sqrt_18)
  have "distance 3 [Fin 0, Fin 1, Fin 4] [Fin 0, Fin 1, Fin 4] ! 0 ! 2 = Fin (fl (sqrt 32))"
    by (simp add: distance_nth fl_0 fl_1 fl_numeral fl_neg_numeral fl_minus)
  then show "distance 3 [Fin 0, Fin 1, Fin 4] [Fin 0, Fin 1, Fin 4] ! 0 ! 2
      = Fin (6369051672525773 / 2 ^ 50)"
    by (simp only: fl_sqrt_32)
qed

lemma fl_abs_upper: "\<bar>fl x\<bar> \<le> (1 + 1 / 2 ^ 53) * \<bar>x\<bar>"
proof -
  have "\<bar>fl x\<bar> \<le> \<bar>x\<bar> + \<bar>fl x - x\<bar>"
    by linarith
  with fl_err [of x] have "\<bar>fl x\<bar> \<le> \<bar>x\<bar> + \<bar>x\<bar> / 2 ^ 53"
    by linarith
  then show ?thesis
    by (simp add: algebra_simps)
qed

lemma fl_abs_lower: "(1 - 1 / 2 ^ 53) * \<bar>x\<bar> \<le> \<bar>fl x\<bar>"
proof -
  have "\<bar>x\<bar> - \<bar>fl x - x\<bar> \<le> \<bar>fl x\<bar>"
    by linarith
  with fl_err [of x] have "\<bar>x\<bar> - \<bar>x\<bar> / 2 ^ 53 \<le> \<bar>fl x\<bar>"
    by linarith
  then show ?thesis
    by (simp add: algebra_simps)
qed

lemma fl_upper: "0 \<le> x \<Longrightarrow> fl x \<le> (1 + 1 / 2 ^ 53) * x"
  using fl_abs_upper [of x] by simp

lemma fl_lower: "0 \<le> x \<Longrightarrow> (1 - 1 / 2 ^ 53) * x \<le> fl x"
  using fl_abs_lower [of x] fl_nonneg [of x] by simp


lemma sq_sum_upper:
  fixes U :: real
  assumes U: "0 \<le> U" and a: "\<bar>A\<bar> \<le> U * \<bar>a\<bar>"
  shows "A * A \<le> U\<^sup>2 * (a * a)"
proof -
  have "\<bar>A\<bar> * \<bar>A\<bar> \<le> (U * \<bar>a\<bar>) * (U * \<bar>a\<bar>)"
    using a U by (intro mult_mono) simp_all
  then show ?thesis
    by (simp add: power2_eq_square algebra_simps flip: abs_mult)
qed

lemma sq_sum_lower:
  fixes L :: real
  assumes L: "0 \<le> L" and a: "L * \<bar>a\<bar> \<le> \<bar>A\<bar>"
  shows "L\<^sup>2 * (a * a) \<le> A * A"
proof -
  have "(L * \<bar>a\<bar>) * (L * \<bar>a\<bar>) \<le> \<bar>A\<bar> * \<bar>A\<bar>"
    using a L by (intro mult_mono) simp_all
  then show ?thesis
    by (simp add: power2_eq_square algebra_simps flip: abs_mult)
qed

lemma distance_pw_eq:
  "distance_pw pw N lx ly =
     map (\<lambda>i. map (\<lambda>j. np_sqrt (np_add (np_power2 pw (np_sub (lx ! i) (lx ! j)))
                                       (np_power2 pw (np_sub (ly ! i) (ly ! j))))) [0..<N]) [0..<N]"
proof -
  have "fold (\<lambda>i. fold (\<lambda>j d. d[i := (d ! i)[j :=
            np_sqrt (np_add (np_power2 pw (np_sub (lx ! i) (lx ! j)))
                            (np_power2 pw (np_sub (ly ! i) (ly ! j))))]]) [0..<N]) [0..<N] (np_zeros2 N N)
        = map (\<lambda>i. map (\<lambda>j. np_sqrt (np_add (np_power2 pw (np_sub (lx ! i) (lx ! j)))
                                       (np_power2 pw (np_sub (ly ! i) (ly ! j))))) [0..<N]) [0..<N]
          @ drop N (np_zeros2 N N)"
    by (rule distance_fold) (simp_all add: np_zeros2_def)
  moreover have "distance_row_pw pw N lx ly = (\<lambda>i. fold (\<lambda>j d. d[i := (d ! i)[j :=
            np_sqrt (np_add (np_power2 pw (np_sub (lx ! i) (lx ! j)))
                            (np_power2 pw (np_sub (ly ! i) (ly ! j))))]]) [0..<N])"
    by (rule ext) (simp add: distance_row_pw_def)
  ultimately show ?thesis
    by (simp add: distance_pw_def np_zeros2_def)
qed

lemma distance_pw_nth:
  "i < N \<Longrightarrow> j < N \<Longrightarrow>
   distance_pw pw N lx ly ! i ! j =
     np_sqrt (np_add (np_power2 pw (np_sub (lx ! i) (lx ! j))) (np_power2 pw (np_sub (ly ! i) (ly ! j))))"
  by (simp add: distance_pw_eq)

lemma square_distance_pw: "square N (distance_pw pw N lx ly)"
  by (simp add: distance_pw_eq square_def list_all_iff)

lemma np_power2_square: "np_power2 (\<lambda>a. fl (a * a)) v = np_pow2 v"
  by (cases v) simp_all

lemma distance_pw_square: "distance_pw (\<lambda>a. fl (a * a)) N lx ly = distance N lx ly"
  by (simp add: distance_pw_eq distance_eq np_power2_square)

lemma libm_pow2_square: "libm_pow2 (\<lambda>a. fl (a * a))"
proof -
  have "\<bar>fl (x * x) - x * x\<bar> \<le> x * x / 2 ^ 51" for x :: real
  proof -
    have "\<bar>fl (x * x) - x * x\<bar> \<le> \<bar>x * x\<bar> / 2 ^ 53"
      by (rule fl_err)
    also have "\<dots> \<le> x * x / 2 ^ 51"
      by (simp add: field_simps)
    finally show ?thesis .
  qed
  then show ?thesis
    by (simp add: libm_pow2_def fl_0)
qed

lemma fl_in_range:
  assumes "d = 0 \<or> (1 / 2 ^ 500 \<le> \<bar>d\<bar> \<and> \<bar>d\<bar> \<le> 2 ^ 500)"
  shows "fl d = 0 \<or> (1 / 2 ^ 501 \<le> \<bar>fl d\<bar> \<and> \<bar>fl d\<bar> \<le> 2 ^ 501)"
proof (cases "d = 0")
  case True
  then show ?thesis by (simp add: fl_0)
next
  case False
  with assms have d: "1 / 2 ^ 500 \<le> \<bar>d\<bar>" "\<bar>d\<bar> \<le> 2 ^ 500" by simp_all
  have "1 / 2 ^ 501 \<le> (1 - 1 / 2 ^ 53) * (1 / 2 ^ 500 :: real)"
    by simp
  also have "\<dots> \<le> (1 - 1 / 2 ^ 53) * \<bar>d\<bar>"
    using d(1) by (intro mult_left_mono) simp_all
  also have "\<dots> \<le> \<bar>fl d\<bar>"
    by (rule fl_abs_lower)
  finally have lo: "1 / 2 ^ 501 \<le> \<bar>fl d\<bar>" .
  have "\<bar>fl d\<bar> \<le> (1 + 1 / 2 ^ 53) * \<bar>d\<bar>"
    by (rule fl_abs_upper)
  also have "\<dots> \<le> (1 + 1 / 2 ^ 53) * 2 ^ 500"
    using d(2) by (intro mult_left_mono) simp_all
  also have "\<dots> \<le> 2 ^ 501"
    by simp
  finally have "\<bar>fl d\<bar> \<le> 2 ^ 501" .
  with lo show ?thesis by simp
qed

lemma pw_bounds:
  assumes "libm_pow2 pw" and "t = 0 \<or> (1 / 2 ^ 501 \<le> \<bar>t\<bar> \<and> \<bar>t\<bar> \<le> 2 ^ 501)"
  shows "(1 - 1 / 2 ^ 51) * (t * t) \<le> pw t" and "pw t \<le> (1 + 1 / 2 ^ 51) * (t * t)"
proof -
  have "\<bar>pw t - t * t\<bar> \<le> t * t / 2 ^ 51"
  proof (cases "t = 0")
    case True
    with assms(1) show ?thesis by (simp add: libm_pow2_def)
  next
    case False
    with assms show ?thesis by (simp add: libm_pow2_def)
  qed
  then have "t * t - t * t / 2 ^ 51 \<le> pw t" "pw t \<le> t * t + t * t / 2 ^ 51"
    by linarith+
  then show "(1 - 1 / 2 ^ 51) * (t * t) \<le> pw t" and "pw t \<le> (1 + 1 / 2 ^ 51) * (t * t)"
    by (simp_all add: algebra_simps)
qed


lemma entry_pw_fin:
  assumes "libm_pow2 pw"
    and "a = b \<or> (1 / 2 ^ 500 \<le> \<bar>a - b\<bar> \<and> \<bar>a - b\<bar> \<le> 2 ^ 500)"
    and "c = d \<or> (1 / 2 ^ 500 \<le> \<bar>c - d\<bar> \<and> \<bar>c - d\<bar> \<le> 2 ^ 500)"
  shows "np_sqrt (np_add (np_power2 pw (np_sub (Fin a) (Fin b))) (np_power2 pw (np_sub (Fin c) (Fin d))))
         = Fin (fl (sqrt (fl (pw (fl (a - b)) + pw (fl (c - d))))))"
    and "0 \<le> pw (fl (a - b))" and "0 \<le> pw (fl (c - d))"
proof -
  have ra: "fl (a - b) = 0 \<or> (1 / 2 ^ 501 \<le> \<bar>fl (a - b)\<bar> \<and> \<bar>fl (a - b)\<bar> \<le> 2 ^ 501)"
    using assms(2) by (intro fl_in_range) simp
  have rc: "fl (c - d) = 0 \<or> (1 / 2 ^ 501 \<le> \<bar>fl (c - d)\<bar> \<and> \<bar>fl (c - d)\<bar> \<le> 2 ^ 501)"
    using assms(3) by (intro fl_in_range) simp
  have "0 \<le> (1 - 1 / 2 ^ 51) * (fl (a - b) * fl (a - b))"
    by (rule mult_nonneg_nonneg) simp_all
  also have "\<dots> \<le> pw (fl (a - b))"
    using assms(1) ra by (rule pw_bounds(1))
  finally show P: "0 \<le> pw (fl (a - b))" .
  have "0 \<le> (1 - 1 / 2 ^ 51) * (fl (c - d) * fl (c - d))"
    by (rule mult_nonneg_nonneg) simp_all
  also have "\<dots> \<le> pw (fl (c - d))"
    using assms(1) rc by (rule pw_bounds(1))
  finally show Q: "0 \<le> pw (fl (c - d))" .
  from P Q have "0 \<le> fl (pw (fl (a - b)) + pw (fl (c - d)))"
    by (intro fl_nonneg add_nonneg_nonneg)
  then show "np_sqrt (np_add (np_power2 pw (np_sub (Fin a) (Fin b))) (np_power2 pw (np_sub (Fin c) (Fin d))))
         = Fin (fl (sqrt (fl (pw (fl (a - b)) + pw (fl (c - d))))))"
    by (simp add: not_less [symmetric])
qed

lemma entry_pw_bounds:
  fixes a b c d :: real
  assumes pw: "libm_pow2 pw"
    and ab: "a = b \<or> (1 / 2 ^ 500 \<le> \<bar>a - b\<bar> \<and> \<bar>a - b\<bar> \<le> 2 ^ 500)"
    and cd: "c = d \<or> (1 / 2 ^ 500 \<le> \<bar>c - d\<bar> \<and> \<bar>c - d\<bar> \<le> 2 ^ 500)"
  defines "U \<equiv> 1 + 1 / 2 ^ 53" and "L \<equiv> 1 - 1 / 2 ^ 53"
  shows "fl (sqrt (fl (pw (fl (a - b)) + pw (fl (c - d))))) \<le> U ^ 5 * sqrt ((a - b)\<^sup>2 + (c - d)\<^sup>2)"
    and "L ^ 5 * sqrt ((a - b)\<^sup>2 + (c - d)\<^sup>2) \<le> fl (sqrt (fl (pw (fl (a - b)) + pw (fl (c - d)))))"
proof -
  have U: "0 \<le> U" "1 \<le> U" and L: "0 \<le> L" "L \<le> 1" by (simp_all add: U_def L_def)
  have U4: "1 + 1 / 2 ^ 51 \<le> U ^ 4" and L5: "L ^ 5 \<le> 1 - 1 / 2 ^ 51"
    by (simp_all add: U_def L_def field_simps)
  have U4': "0 \<le> U ^ 4" and L5': "0 \<le> L ^ 5" using U(1) L(1) by simp_all
  let ?A = "fl (a - b)" and ?C = "fl (c - d)"
  let ?P = "pw ?A" and ?Q = "pw ?C"
  let ?S = "fl (?P + ?Q)"
  let ?D = "(a - b)\<^sup>2 + (c - d)\<^sup>2"
  have ra: "?A = 0 \<or> (1 / 2 ^ 501 \<le> \<bar>?A\<bar> \<and> \<bar>?A\<bar> \<le> 2 ^ 501)"
    using ab by (intro fl_in_range) simp
  have rc: "?C = 0 \<or> (1 / 2 ^ 501 \<le> \<bar>?C\<bar> \<and> \<bar>?C\<bar> \<le> 2 ^ 501)"
    using cd by (intro fl_in_range) simp
  have P0: "0 \<le> ?P" and Q0: "0 \<le> ?Q"
    using entry_pw_fin(2,3) [OF pw ab cd] by simp_all
  have PQ0: "0 \<le> ?P + ?Q" using P0 Q0 by simp
  have sqA: "0 \<le> ?A * ?A" and sqC: "0 \<le> ?C * ?C" by simp_all
  have D0: "0 \<le> ?D" by simp

  have Au: "?A * ?A \<le> U\<^sup>2 * ((a - b) * (a - b))"
    using U(1) fl_abs_upper [of "a - b"] unfolding U_def by (rule sq_sum_upper)
  have Cu: "?C * ?C \<le> U\<^sup>2 * ((c - d) * (c - d))"
    using U(1) fl_abs_upper [of "c - d"] unfolding U_def by (rule sq_sum_upper)
  have "?P \<le> (1 + 1 / 2 ^ 51) * (?A * ?A)"
    using pw ra by (rule pw_bounds(2))
  also have "\<dots> \<le> U ^ 4 * (?A * ?A)"
    using U4 sqA by (rule mult_right_mono)
  also have "\<dots> \<le> U ^ 4 * (U\<^sup>2 * ((a - b) * (a - b)))"
    using Au U4' by (rule mult_left_mono)
  finally have Pu: "?P \<le> U ^ 6 * (a - b)\<^sup>2"
    by (simp add: eval_nat_numeral mult.assoc)
  have "?Q \<le> (1 + 1 / 2 ^ 51) * (?C * ?C)"
    using pw rc by (rule pw_bounds(2))
  also have "\<dots> \<le> U ^ 4 * (?C * ?C)"
    using U4 sqC by (rule mult_right_mono)
  also have "\<dots> \<le> U ^ 4 * (U\<^sup>2 * ((c - d) * (c - d)))"
    using Cu U4' by (rule mult_left_mono)
  finally have Qu: "?Q \<le> U ^ 6 * (c - d)\<^sup>2"
    by (simp add: eval_nat_numeral mult.assoc)
  have "?S \<le> U * (?P + ?Q)"
    unfolding U_def using PQ0 by (rule fl_upper)
  also have "\<dots> \<le> U * (U ^ 6 * ?D)"
    using Pu Qu U(1) by (intro mult_left_mono) (simp_all add: distrib_left)
  also have "\<dots> \<le> U * (U * (U ^ 6 * ?D))"
  proof -
    have "0 \<le> U ^ 6 * ?D" using U(1) D0 by (intro mult_nonneg_nonneg) simp_all
    with U(2) have "1 * (U ^ 6 * ?D) \<le> U * (U ^ 6 * ?D)" by (rule mult_right_mono)
    then show ?thesis using U(1) by (intro mult_left_mono) simp_all
  qed
  also have "\<dots> = (U ^ 4 * sqrt ?D)\<^sup>2"
    by (simp add: power_mult_distrib eval_nat_numeral mult.assoc)
  finally have "sqrt ?S \<le> sqrt ((U ^ 4 * sqrt ?D)\<^sup>2)"
    by (simp only: real_sqrt_le_iff)
  then have Su: "sqrt ?S \<le> U ^ 4 * sqrt ?D"
    using U(1) by simp
  have "fl (sqrt ?S) \<le> U * sqrt ?S"
    unfolding U_def by (rule fl_upper) (simp add: fl_nonneg PQ0)
  also have "\<dots> \<le> U * (U ^ 4 * sqrt ?D)"
    using Su U(1) by (rule mult_left_mono)
  finally show "fl (sqrt ?S) \<le> U ^ 5 * sqrt ?D"
    by (simp add: eval_nat_numeral mult.assoc)

  have Al: "L\<^sup>2 * ((a - b) * (a - b)) \<le> ?A * ?A"
    using L(1) fl_abs_lower [of "a - b"] unfolding L_def by (rule sq_sum_lower)
  have Cl: "L\<^sup>2 * ((c - d) * (c - d)) \<le> ?C * ?C"
    using L(1) fl_abs_lower [of "c - d"] unfolding L_def by (rule sq_sum_lower)
  have "L ^ 5 * (L\<^sup>2 * ((a - b) * (a - b))) \<le> L ^ 5 * (?A * ?A)"
    using Al L5' by (rule mult_left_mono)
  also have "\<dots> \<le> (1 - 1 / 2 ^ 51) * (?A * ?A)"
    using L5 sqA by (rule mult_right_mono)
  also have "\<dots> \<le> ?P"
    using pw ra by (rule pw_bounds(1))
  finally have Pl: "L ^ 7 * (a - b)\<^sup>2 \<le> ?P"
    by (simp add: eval_nat_numeral mult.assoc)
  have "L ^ 5 * (L\<^sup>2 * ((c - d) * (c - d))) \<le> L ^ 5 * (?C * ?C)"
    using Cl L5' by (rule mult_left_mono)
  also have "\<dots> \<le> (1 - 1 / 2 ^ 51) * (?C * ?C)"
    using L5 sqC by (rule mult_right_mono)
  also have "\<dots> \<le> ?Q"
    using pw rc by (rule pw_bounds(1))
  finally have Ql: "L ^ 7 * (c - d)\<^sup>2 \<le> ?Q"
    by (simp add: eval_nat_numeral mult.assoc)
  have "(L ^ 4 * sqrt ?D)\<^sup>2 = L * (L ^ 7 * ?D)"
    by (simp add: power_mult_distrib eval_nat_numeral mult.assoc)
  also have "\<dots> \<le> L * (?P + ?Q)"
    using Pl Ql L(1) by (intro mult_left_mono) (simp_all add: distrib_left)
  also have "\<dots> \<le> ?S"
    unfolding L_def using PQ0 by (rule fl_lower)
  finally have "sqrt ((L ^ 4 * sqrt ?D)\<^sup>2) \<le> sqrt ?S"
    by (simp only: real_sqrt_le_iff)
  then have Sl: "L ^ 4 * sqrt ?D \<le> sqrt ?S"
    using L(1) by simp
  have "L * (L ^ 4 * sqrt ?D) \<le> L * sqrt ?S"
    using Sl L(1) by (rule mult_left_mono)
  also have "\<dots> \<le> fl (sqrt ?S)"
    unfolding L_def by (rule fl_lower) (simp add: fl_nonneg PQ0)
  finally show "L ^ 5 * sqrt ?D \<le> fl (sqrt ?S)"
    by (simp add: eval_nat_numeral mult.assoc)
qed

lemma well_spaced_nth:
  assumes "well_spaced xs" and "i < length xs" and "j < length xs"
  shows "\<exists>a b. xs ! i = Fin a \<and> xs ! j = Fin b
           \<and> (a = b \<or> (1 / 2 ^ 500 \<le> \<bar>a - b\<bar> \<and> \<bar>a - b\<bar> \<le> 2 ^ 500))"
proof -
  from assms have "diff_in_range (xs ! i) (xs ! j)"
    by (simp add: well_spaced_def list_all_length)
  then show ?thesis
    by (cases "xs ! i"; cases "xs ! j") simp_all
qed

lemma rounding_factors:
  "(1 + 1 / 2 ^ 53) ^ 5 \<le> (1 + 1 / 2 ^ 50 :: real)"
  "(1 - 1 / 2 ^ 50 :: real) \<le> (1 - 1 / 2 ^ 53) ^ 5"
  "(1 + 1 / 2 ^ 53) ^ 5 \<le> (1 + 1 / 2 ^ 49) * (1 - 1 / 2 ^ 53 :: real) ^ 5"
  by (simp_all add: field_simps)

lemma entry_pw_close:
  fixes a b c d :: real
  assumes "libm_pow2 pw"
    and "a = b \<or> (1 / 2 ^ 500 \<le> \<bar>a - b\<bar> \<and> \<bar>a - b\<bar> \<le> 2 ^ 500)"
    and "c = d \<or> (1 / 2 ^ 500 \<le> \<bar>c - d\<bar> \<and> \<bar>c - d\<bar> \<le> 2 ^ 500)"
  shows "\<bar>fl (sqrt (fl (pw (fl (a - b)) + pw (fl (c - d))))) - sqrt ((a - b)\<^sup>2 + (c - d)\<^sup>2)\<bar>
         \<le> sqrt ((a - b)\<^sup>2 + (c - d)\<^sup>2) / 2 ^ 50"
proof -
  let ?v = "fl (sqrt (fl (pw (fl (a - b)) + pw (fl (c - d)))))"
  let ?d = "sqrt ((a - b)\<^sup>2 + (c - d)\<^sup>2)"
  have d: "0 \<le> ?d" by simp
  have "?v \<le> (1 + 1 / 2 ^ 53) ^ 5 * ?d"
    using assms by (rule entry_pw_bounds(1))
  also have "\<dots> \<le> (1 + 1 / 2 ^ 50) * ?d"
    using rounding_factors(1) d by (rule mult_right_mono)
  finally have up: "?v \<le> ?d + ?d / 2 ^ 50"
    by (simp add: algebra_simps)
  have "(1 - 1 / 2 ^ 50) * ?d \<le> (1 - 1 / 2 ^ 53) ^ 5 * ?d"
    using rounding_factors(2) d by (rule mult_right_mono)
  also have "\<dots> \<le> ?v"
    using assms by (rule entry_pw_bounds(2))
  finally have lo: "?d - ?d / 2 ^ 50 \<le> ?v"
    by (simp add: algebra_simps)
  from up lo show ?thesis
    by linarith
qed

lemma well_spaced_0_1_4: "well_spaced [Fin 0, Fin 1, Fin 4]"
  by (simp add: well_spaced_def)

lemma entry_pw_sym:
  assumes "libm_pow2 pw"
  shows "fl (sqrt (fl (pw (fl (b - a)) + pw (fl (d - c)))))
       = fl (sqrt (fl (pw (fl (a - b)) + pw (fl (c - d)))))"
proof -
  have "fl (b - a) = - fl (a - b)" "fl (d - c) = - fl (c - d)"
    using fl_minus [of "a - b"] fl_minus [of "c - d"] by simp_all
  moreover have "pw (- t) = pw t" for t
    using assms by (simp add: libm_pow2_def)
  ultimately show ?thesis by simp
qed

lemma entry_pw_triangle:
  fixes x1 x2 x3 y1 y2 y3 :: real
  assumes pw: "libm_pow2 pw"
    and r12: "x1 = x2 \<or> (1 / 2 ^ 500 \<le> \<bar>x1 - x2\<bar> \<and> \<bar>x1 - x2\<bar> \<le> 2 ^ 500)"
      "y1 = y2 \<or> (1 / 2 ^ 500 \<le> \<bar>y1 - y2\<bar> \<and> \<bar>y1 - y2\<bar> \<le> 2 ^ 500)"
    and r23: "x2 = x3 \<or> (1 / 2 ^ 500 \<le> \<bar>x2 - x3\<bar> \<and> \<bar>x2 - x3\<bar> \<le> 2 ^ 500)"
      "y2 = y3 \<or> (1 / 2 ^ 500 \<le> \<bar>y2 - y3\<bar> \<and> \<bar>y2 - y3\<bar> \<le> 2 ^ 500)"
    and r13: "x1 = x3 \<or> (1 / 2 ^ 500 \<le> \<bar>x1 - x3\<bar> \<and> \<bar>x1 - x3\<bar> \<le> 2 ^ 500)"
      "y1 = y3 \<or> (1 / 2 ^ 500 \<le> \<bar>y1 - y3\<bar> \<and> \<bar>y1 - y3\<bar> \<le> 2 ^ 500)"
  defines "e \<equiv> \<lambda>a b c d. fl (sqrt (fl (pw (fl (a - b)) + pw (fl (c - d)))))"
  shows "e x1 x3 y1 y3 \<le> (1 + 1 / 2 ^ 49) * (e x1 x2 y1 y2 + e x2 x3 y2 y3)"
    and "0 \<le> e x1 x2 y1 y2"
proof -
  define U :: real where "U = (1 + 1 / 2 ^ 53) ^ 5"
  define L :: real where "L = (1 - 1 / 2 ^ 53) ^ 5"
  let ?d = "\<lambda>a b c d. sqrt ((a - b)\<^sup>2 + (c - d)\<^sup>2) :: real"
  have L: "0 < L" by (simp add: L_def)
  have U: "0 \<le> U" by (simp add: U_def)
  have UL: "U \<le> (1 + 1 / 2 ^ 49) * L"
    unfolding U_def L_def by (rule rounding_factors(3))
  have tri: "?d x1 x3 y1 y3 \<le> ?d x1 x2 y1 y2 + ?d x2 x3 y2 y3"
    using real_sqrt_sum_squares_triangle_ineq [of "x1 - x2" "x2 - x3" "y1 - y2" "y2 - y3"]
    by simp
  have lo12: "L * ?d x1 x2 y1 y2 \<le> e x1 x2 y1 y2"
    unfolding e_def L_def using pw r12 by (rule entry_pw_bounds(2))
  have lo23: "L * ?d x2 x3 y2 y3 \<le> e x2 x3 y2 y3"
    unfolding e_def L_def using pw r23 by (rule entry_pw_bounds(2))
  have up13: "e x1 x3 y1 y3 \<le> U * ?d x1 x3 y1 y3"
    unfolding e_def U_def using pw r13 by (rule entry_pw_bounds(1))
  have "0 \<le> L * ?d x1 x2 y1 y2" "0 \<le> L * ?d x2 x3 y2 y3"
    using L by simp_all
  with lo12 lo23 have e12: "0 \<le> e x1 x2 y1 y2" and e23: "0 \<le> e x2 x3 y2 y3"
    by linarith+
  from e12 show "0 \<le> e x1 x2 y1 y2" .
  from e12 e23 have s0: "0 \<le> e x1 x2 y1 y2 + e x2 x3 y2 y3"
    by simp
  have "L * e x1 x3 y1 y3 \<le> L * (U * ?d x1 x3 y1 y3)"
    using L up13 by (intro mult_left_mono) simp_all
  also have "\<dots> \<le> L * (U * (?d x1 x2 y1 y2 + ?d x2 x3 y2 y3))"
    using L U tri by (intro mult_left_mono) simp_all
  also have "\<dots> = U * (L * ?d x1 x2 y1 y2 + L * ?d x2 x3 y2 y3)"
    by (simp add: algebra_simps)
  also have "\<dots> \<le> U * (e x1 x2 y1 y2 + e x2 x3 y2 y3)"
    using U lo12 lo23 by (intro mult_left_mono add_mono) simp_all
  also have "\<dots> \<le> ((1 + 1 / 2 ^ 49) * L) * (e x1 x2 y1 y2 + e x2 x3 y2 y3)"
    using UL s0 by (rule mult_right_mono)
  finally have "L * e x1 x3 y1 y3 \<le> L * ((1 + 1 / 2 ^ 49) * (e x1 x2 y1 y2 + e x2 x3 y2 y3))"
    by (simp add: mult.assoc mult.left_commute)
  then show "e x1 x3 y1 y3 \<le> (1 + 1 / 2 ^ 49) * (e x1 x2 y1 y2 + e x2 x3 y2 y3)"
    using L by (simp only: mult_le_cancel_left_pos)
qed

text \<open>
  Claim C3 says that entry \<open>(i, j)\<close> equals the Euclidean distance
  \<open>sqrt((x\<^sub>i - x\<^sub>j)\<^sup>2 + (y\<^sub>i - y\<^sub>j)\<^sup>2)\<close>.  The entry is a \<^verbatim>\<open>float64\<close>: for the centroids
  \<open>(0, 0)\<close> and \<open>(1, 1)\<close> it is \<open>6369051672525773 / 2\<^sup>5\<^sup>2\<close>, printed
  \<^verbatim>\<open>1.4142135623730951\<close>, and not the square root of two.
\<close>

theorem distance_entry_not_exact:
  "distance 3 [Fin 0, Fin 1, Fin 4] [Fin 0, Fin 1, Fin 4] ! 0 ! 1 = Fin (6369051672525773 / 2 ^ 52)
   \<and> (6369051672525773 / 2 ^ 52 :: real) \<noteq> sqrt ((0 - 1)\<^sup>2 + (0 - 1)\<^sup>2)"
proof -
  have "(6369051672525773 / 2 ^ 52 :: real)\<^sup>2 \<noteq> 2"
    by (simp add: power2_eq_square)
  moreover have "(sqrt 2)\<^sup>2 = 2"
    by simp
  ultimately have ne: "(6369051672525773 / 2 ^ 52 :: real) \<noteq> sqrt 2"
    by metis
  have eq: "sqrt ((0 - 1)\<^sup>2 + (0 - 1)\<^sup>2) = sqrt 2"
    by simp
  have "(6369051672525773 / 2 ^ 52 :: real) \<noteq> sqrt ((0 - 1)\<^sup>2 + (0 - 1)\<^sup>2)"
    unfolding eq by (rule ne)
  with entries_0_1_4(1) show ?thesis
    by (rule conjI)
qed

text \<open>
  Claim C3 as the code has it.  For centroid arrays of length \<open>N\<close> in the range
  \<open>well_spaced\<close>, and a library \<^verbatim>\<open>pow\<close> that is accurate to two units in the last place,
  the second loop returns an \<open>N\<close> by \<open>N\<close> matrix, and its entry \<open>(i, j)\<close> is a number that
  differs from the Euclidean distance \<open>sqrt((x\<^sub>i - x\<^sub>j)\<^sup>2 + (y\<^sub>i - y\<^sub>j)\<^sup>2)\<close> between centroid
  \<open>i\<close> and centroid \<open>j\<close> by at most that distance times \<open>2\<^sup>-\<^sup>5\<^sup>0\<close>.
\<close>

theorem distance_entry_rounded:
  assumes "libm_pow2 pw" and "length lx = N" and "length ly = N"
    and "well_spaced lx" and "well_spaced ly" and "i < N" and "j < N"
  shows "square N (distance_pw pw N lx ly)
       \<and> (\<exists>xi yi xj yj v. lx ! i = Fin xi \<and> ly ! i = Fin yi \<and> lx ! j = Fin xj \<and> ly ! j = Fin yj
            \<and> distance_pw pw N lx ly ! i ! j = Fin v
            \<and> \<bar>v - sqrt ((xi - xj)\<^sup>2 + (yi - yj)\<^sup>2)\<bar> \<le> sqrt ((xi - xj)\<^sup>2 + (yi - yj)\<^sup>2) / 2 ^ 50)"
proof
  show "square N (distance_pw pw N lx ly)"
    by (rule square_distance_pw)
  from well_spaced_nth [OF assms(4), of i j] assms(2,6,7)
  obtain xi xj where x: "lx ! i = Fin xi" "lx ! j = Fin xj"
    and rx: "xi = xj \<or> (1 / 2 ^ 500 \<le> \<bar>xi - xj\<bar> \<and> \<bar>xi - xj\<bar> \<le> 2 ^ 500)"
    by auto
  from well_spaced_nth [OF assms(5), of i j] assms(3,6,7)
  obtain yi yj where y: "ly ! i = Fin yi" "ly ! j = Fin yj"
    and ry: "yi = yj \<or> (1 / 2 ^ 500 \<le> \<bar>yi - yj\<bar> \<and> \<bar>yi - yj\<bar> \<le> 2 ^ 500)"
    by auto
  have "distance_pw pw N lx ly ! i ! j = Fin (fl (sqrt (fl (pw (fl (xi - xj)) + pw (fl (yi - yj))))))"
    using assms(6,7) by (simp only: distance_pw_nth x y entry_pw_fin(1) [OF assms(1) rx ry])
  moreover have "\<bar>fl (sqrt (fl (pw (fl (xi - xj)) + pw (fl (yi - yj))))) - sqrt ((xi - xj)\<^sup>2 + (yi - yj)\<^sup>2)\<bar>
      \<le> sqrt ((xi - xj)\<^sup>2 + (yi - yj)\<^sup>2) / 2 ^ 50"
    using assms(1) rx ry by (rule entry_pw_close)
  ultimately show "\<exists>xi yi xj yj v. lx ! i = Fin xi \<and> ly ! i = Fin yi \<and> lx ! j = Fin xj \<and> ly ! j = Fin yj
            \<and> distance_pw pw N lx ly ! i ! j = Fin v
            \<and> \<bar>v - sqrt ((xi - xj)\<^sup>2 + (yi - yj)\<^sup>2)\<bar> \<le> sqrt ((xi - xj)\<^sup>2 + (yi - yj)\<^sup>2) / 2 ^ 50"
    using x y by blast
qed

text \<open>The centroids \<open>(0, 0)\<close>, \<open>(1, 1)\<close>, \<open>(4, 4)\<close> with the correctly rounded square.\<close>

theorem distance_entry_rounded_witness:
  "libm_pow2 (\<lambda>a. fl (a * a)) \<and> length [Fin 0, Fin 1, Fin 4] = 3
   \<and> well_spaced [Fin 0, Fin 1, Fin 4]
   \<and> square 3 (distance_pw (\<lambda>a. fl (a * a)) 3 [Fin 0, Fin 1, Fin 4] [Fin 0, Fin 1, Fin 4])
   \<and> distance_pw (\<lambda>a. fl (a * a)) 3 [Fin 0, Fin 1, Fin 4] [Fin 0, Fin 1, Fin 4] ! 0 ! 1
       = Fin (6369051672525773 / 2 ^ 52)
   \<and> \<bar>6369051672525773 / 2 ^ 52 - sqrt ((0 - 1)\<^sup>2 + (0 - 1)\<^sup>2)\<bar>
       \<le> sqrt ((0 - 1)\<^sup>2 + (0 - 1)\<^sup>2) / 2 ^ 50"
proof -
  let ?lx = "[Fin 0, Fin 1, Fin 4]"
  have len: "length ?lx = 3" by simp
  have idx: "(0::nat) < 3" "(1::nat) < 3" by simp_all
  have e: "distance_pw (\<lambda>a. fl (a * a)) 3 ?lx ?lx ! 0 ! 1 = Fin (6369051672525773 / 2 ^ 52)"
    by (simp only: distance_pw_square entries_0_1_4)
  from distance_entry_rounded [OF libm_pow2_square len len well_spaced_0_1_4 well_spaced_0_1_4 idx]
  obtain xi yi xj yj v where sq: "square 3 (distance_pw (\<lambda>a. fl (a * a)) 3 ?lx ?lx)"
    and c: "?lx ! 0 = Fin xi" "?lx ! 0 = Fin yi" "?lx ! 1 = Fin xj" "?lx ! 1 = Fin yj"
    and v: "distance_pw (\<lambda>a. fl (a * a)) 3 ?lx ?lx ! 0 ! 1 = Fin v"
    and b: "\<bar>v - sqrt ((xi - xj)\<^sup>2 + (yi - yj)\<^sup>2)\<bar> \<le> sqrt ((xi - xj)\<^sup>2 + (yi - yj)\<^sup>2) / 2 ^ 50"
    by blast
  from c have "xi = 0" "yi = 0" "xj = 1" "yj = 1" by simp_all
  moreover from v e have "v = 6369051672525773 / 2 ^ 52" by simp
  ultimately have "\<bar>6369051672525773 / 2 ^ 52 - sqrt ((0 - 1)\<^sup>2 + (0 - 1)\<^sup>2)\<bar>
       \<le> sqrt ((0 - 1)\<^sup>2 + (0 - 1)\<^sup>2) / 2 ^ 50"
    using b by (simp only:)
  with libm_pow2_square len well_spaced_0_1_4 sq e show ?thesis
    by blast
qed


text \<open>
  Claim C10 says that the entries satisfy the triangle inequality
  \<open>D[i][k] \<le> D[i][j] + D[j][k]\<close>.  The entries are rounded, and for collinear centroids
  the roundings can go the wrong way: for the centroids \<open>(0, 0)\<close>, \<open>(1, 1)\<close>, \<open>(4, 4)\<close> the
  entries are the \<^verbatim>\<open>float64\<close> values of \<open>sqrt 2\<close>, \<open>sqrt 18\<close> and \<open>sqrt 32\<close>, and
  \<open>D[0][2]\<close> is greater than \<open>D[0][1] + D[1][2]\<close>, both for the sum as \<^verbatim>\<open>float64\<close> adds it
  and for the exact sum of the two entries.
\<close>

theorem triangle_inequality_fails:
  "distance 3 [Fin 0, Fin 1, Fin 4] [Fin 0, Fin 1, Fin 4] ! 0 ! 1 = Fin (6369051672525773 / 2 ^ 52)
   \<and> distance 3 [Fin 0, Fin 1, Fin 4] [Fin 0, Fin 1, Fin 4] ! 1 ! 2 = Fin (4776788754394329 / 2 ^ 50)
   \<and> distance 3 [Fin 0, Fin 1, Fin 4] [Fin 0, Fin 1, Fin 4] ! 0 ! 2 = Fin (6369051672525773 / 2 ^ 50)
   \<and> np_add (Fin (6369051672525773 / 2 ^ 52)) (Fin (4776788754394329 / 2 ^ 50))
       = Fin (6369051672525772 / 2 ^ 50)
   \<and> (6369051672525772 / 2 ^ 50 :: real) < 6369051672525773 / 2 ^ 50
   \<and> (6369051672525773 / 2 ^ 52 + 4776788754394329 / 2 ^ 50 :: real) < 6369051672525773 / 2 ^ 50"
proof -
  have "np_add (Fin (6369051672525773 / 2 ^ 52)) (Fin (4776788754394329 / 2 ^ 50))
       = Fin (6369051672525772 / 2 ^ 50)"
    by (simp only: np_add.simps fl_sum)
  then show ?thesis
    by (simp only: entries_0_1_4) simp
qed

text \<open>
  Claim C10 as the code has it.  For centroid arrays in the range \<open>well_spaced\<close>, and
  a library \<^verbatim>\<open>pow\<close> that is accurate to two units in the last place, the entries are
  numbers, non-negative, symmetric and zero on the diagonal, and the triangle
  inequality holds up to rounding:
  \<open>D[i][k] \<le> (1 + 2\<^sup>-\<^sup>4\<^sup>9) (D[i][j] + D[j][k])\<close>.
\<close>

theorem distance_triangle_rounded:
  assumes "libm_pow2 pw" and "length lx = N" and "length ly = N"
    and "well_spaced lx" and "well_spaced ly"
    and "i < N" and "j < N" and "k < N"
  shows "\<exists>a b c. distance_pw pw N lx ly ! i ! j = Fin a \<and> distance_pw pw N lx ly ! j ! k = Fin b
           \<and> distance_pw pw N lx ly ! i ! k = Fin c
           \<and> c \<le> (1 + 1 / 2 ^ 49) * (a + b)
           \<and> 0 \<le> a \<and> distance_pw pw N lx ly ! j ! i = Fin a
           \<and> distance_pw pw N lx ly ! i ! i = Fin 0"
proof -
  have pair: "\<exists>xm ym xn yn. lx ! m = Fin xm \<and> ly ! m = Fin ym \<and> lx ! n = Fin xn \<and> ly ! n = Fin yn
      \<and> (xm = xn \<or> (1 / 2 ^ 500 \<le> \<bar>xm - xn\<bar> \<and> \<bar>xm - xn\<bar> \<le> 2 ^ 500))
      \<and> (ym = yn \<or> (1 / 2 ^ 500 \<le> \<bar>ym - yn\<bar> \<and> \<bar>ym - yn\<bar> \<le> 2 ^ 500))"
    if "m < N" "n < N" for m n
    using well_spaced_nth [OF assms(4), of m n] well_spaced_nth [OF assms(5), of m n] that assms(2,3)
    by auto
  from pair [OF assms(6,7)] obtain xi yi xj yj where
    i: "lx ! i = Fin xi" "ly ! i = Fin yi" and j: "lx ! j = Fin xj" "ly ! j = Fin yj"
    and rij: "xi = xj \<or> (1 / 2 ^ 500 \<le> \<bar>xi - xj\<bar> \<and> \<bar>xi - xj\<bar> \<le> 2 ^ 500)"
      "yi = yj \<or> (1 / 2 ^ 500 \<le> \<bar>yi - yj\<bar> \<and> \<bar>yi - yj\<bar> \<le> 2 ^ 500)"
    by blast
  from pair [OF assms(7,8)] j obtain xk yk where
    k: "lx ! k = Fin xk" "ly ! k = Fin yk"
    and rjk: "xj = xk \<or> (1 / 2 ^ 500 \<le> \<bar>xj - xk\<bar> \<and> \<bar>xj - xk\<bar> \<le> 2 ^ 500)"
      "yj = yk \<or> (1 / 2 ^ 500 \<le> \<bar>yj - yk\<bar> \<and> \<bar>yj - yk\<bar> \<le> 2 ^ 500)"
    by auto
  from pair [OF assms(6,8)] i k have
    rik: "xi = xk \<or> (1 / 2 ^ 500 \<le> \<bar>xi - xk\<bar> \<and> \<bar>xi - xk\<bar> \<le> 2 ^ 500)"
      "yi = yk \<or> (1 / 2 ^ 500 \<le> \<bar>yi - yk\<bar> \<and> \<bar>yi - yk\<bar> \<le> 2 ^ 500)"
    by auto
  from pair [OF assms(7,6)] i j have
    rji: "xj = xi \<or> (1 / 2 ^ 500 \<le> \<bar>xj - xi\<bar> \<and> \<bar>xj - xi\<bar> \<le> 2 ^ 500)"
      "yj = yi \<or> (1 / 2 ^ 500 \<le> \<bar>yj - yi\<bar> \<and> \<bar>yj - yi\<bar> \<le> 2 ^ 500)"
    by auto
  let ?e = "\<lambda>a b c d. fl (sqrt (fl (pw (fl (a - b)) + pw (fl (c - d)))))"
  have ij: "distance_pw pw N lx ly ! i ! j = Fin (?e xi xj yi yj)"
    using assms(6,7) by (simp only: distance_pw_nth i j entry_pw_fin(1) [OF assms(1) rij])
  have jk: "distance_pw pw N lx ly ! j ! k = Fin (?e xj xk yj yk)"
    using assms(7,8) by (simp only: distance_pw_nth j k entry_pw_fin(1) [OF assms(1) rjk])
  have ik: "distance_pw pw N lx ly ! i ! k = Fin (?e xi xk yi yk)"
    using assms(6,8) by (simp only: distance_pw_nth i k entry_pw_fin(1) [OF assms(1) rik])
  have "distance_pw pw N lx ly ! j ! i = Fin (?e xj xi yj yi)"
    using assms(6,7) by (simp only: distance_pw_nth i j entry_pw_fin(1) [OF assms(1) rji])
  then have ji: "distance_pw pw N lx ly ! j ! i = Fin (?e xi xj yi yj)"
    by (simp only: entry_pw_sym [OF assms(1)])
  have "pw 0 = 0"
    using assms(1) by (simp add: libm_pow2_def)
  then have ii: "distance_pw pw N lx ly ! i ! i = Fin 0"
    using assms(6) by (simp add: distance_pw_nth i fl_0)
  have "?e xi xk yi yk \<le> (1 + 1 / 2 ^ 49) * (?e xi xj yi yj + ?e xj xk yj yk)"
    using assms(1) rij rjk rik by (rule entry_pw_triangle(1))
  moreover have "0 \<le> ?e xi xj yi yj"
    using assms(1) rij rjk rik by (rule entry_pw_triangle(2))
  ultimately show ?thesis
    using ij jk ik ji ii by blast
qed

text \<open>The three collinear centroids again: the bound holds where the exact inequality fails.\<close>

theorem distance_triangle_rounded_witness:
  "libm_pow2 (\<lambda>a. fl (a * a)) \<and> length [Fin 0, Fin 1, Fin 4] = 3
   \<and> well_spaced [Fin 0, Fin 1, Fin 4]
   \<and> distance_pw (\<lambda>a. fl (a * a)) 3 [Fin 0, Fin 1, Fin 4] [Fin 0, Fin 1, Fin 4] ! 0 ! 1
       = Fin (6369051672525773 / 2 ^ 52)
   \<and> distance_pw (\<lambda>a. fl (a * a)) 3 [Fin 0, Fin 1, Fin 4] [Fin 0, Fin 1, Fin 4] ! 1 ! 2
       = Fin (4776788754394329 / 2 ^ 50)
   \<and> distance_pw (\<lambda>a. fl (a * a)) 3 [Fin 0, Fin 1, Fin 4] [Fin 0, Fin 1, Fin 4] ! 0 ! 2
       = Fin (6369051672525773 / 2 ^ 50)
   \<and> (6369051672525773 / 2 ^ 50 :: real)
       \<le> (1 + 1 / 2 ^ 49) * (6369051672525773 / 2 ^ 52 + 4776788754394329 / 2 ^ 50)
   \<and> distance_pw (\<lambda>a. fl (a * a)) 3 [Fin 0, Fin 1, Fin 4] [Fin 0, Fin 1, Fin 4] ! 1 ! 0
       = Fin (6369051672525773 / 2 ^ 52)
   \<and> distance_pw (\<lambda>a. fl (a * a)) 3 [Fin 0, Fin 1, Fin 4] [Fin 0, Fin 1, Fin 4] ! 0 ! 0 = Fin 0"
proof -
  let ?lx = "[Fin 0, Fin 1, Fin 4]"
  let ?D = "distance_pw (\<lambda>a. fl (a * a)) 3 ?lx ?lx"
  have len: "length ?lx = 3"
    by simp
  have idx: "(0::nat) < 3" "(1::nat) < 3" "(2::nat) < 3"
    by simp_all
  have e: "?D ! 0 ! 1 = Fin (6369051672525773 / 2 ^ 52)"
    "?D ! 1 ! 2 = Fin (4776788754394329 / 2 ^ 50)"
    "?D ! 0 ! 2 = Fin (6369051672525773 / 2 ^ 50)"
    by (simp_all only: distance_pw_square entries_0_1_4)
  from distance_triangle_rounded [OF libm_pow2_square len len well_spaced_0_1_4 well_spaced_0_1_4 idx]
  obtain a b c where
    ab: "?D ! 0 ! 1 = Fin a" and bc: "?D ! 1 ! 2 = Fin b" and ac: "?D ! 0 ! 2 = Fin c"
    and le: "c \<le> (1 + 1 / 2 ^ 49) * (a + b)"
    and ba: "?D ! 1 ! 0 = Fin a" and aa: "?D ! 0 ! 0 = Fin 0"
    by blast
  from ab have a: "a = 6369051672525773 / 2 ^ 52"
    by (simp only: e float64.inject)
  from bc have b: "b = 4776788754394329 / 2 ^ 50"
    by (simp only: e float64.inject)
  from ac have c: "c = 6369051672525773 / 2 ^ 50"
    by (simp only: e float64.inject)
  from le have "(6369051672525773 / 2 ^ 50 :: real)
       \<le> (1 + 1 / 2 ^ 49) * (6369051672525773 / 2 ^ 52 + 4776788754394329 / 2 ^ 50)"
    by (simp only: a b c)
  moreover from ba have "?D ! 1 ! 0 = Fin (6369051672525773 / 2 ^ 52)"
    by (simp only: a)
  ultimately show ?thesis
    using libm_pow2_square len well_spaced_0_1_4 aa e by blast
qed


end
